theory Spec2Isabelle
  imports Main "HOL-Library.Sublist"
begin

chapter \<open>Laboratory instrument simulators: encoders, file emitter, orchestrator, bridge\<close>

text \<open>
  A shallow embedding of the Python test scripts: the HL7 encoder of
  \<^verbatim>\<open>test_pointcare.py\<close>, the chemistry panel builder of
  \<^verbatim>\<open>test_healvet_full_panel.py\<close>, the versioned file emitter of
  \<^verbatim>\<open>test_exigo_file_creator.py\<close>, the orchestrator of \<^verbatim>\<open>test_devices.py\<close> and
  the bridge teardown of \<^verbatim>\<open>serial_bridge.py\<close>. Python strings are \<^typ>\<open>string\<close>,
  Python integers are \<^typ>\<open>int\<close>, exceptions are values of a sum type, and the
  operating system (clock, file system, child processes) is an explicit argument.
\<close>

section \<open>Definitions: Python exceptions and dictionaries\<close>

text \<open>The exceptions that the modelled code and library calls can raise.\<close>

datatype exn =
    FileNotFoundError
  | FileExistsError
  | NotADirectoryError
  | IsADirectoryError
  | SameFileError
  | PermissionError
  | TimeoutExpired
  | UnboundLocalError
  | TypeError

text \<open>
  A dictionary in insertion order, as an association list: \<^verbatim>\<open>d[k] = v\<close> replaces the
  value of a key that is present and appends a new key.
\<close>

fun dict_set :: "('k \<times> 'v) list \<Rightarrow> 'k \<Rightarrow> 'v \<Rightarrow> ('k \<times> 'v) list" where
  "dict_set [] k v = [(k, v)]"
| "dict_set ((k', v') # rest) k v =
     (if k' = k then (k, v) # rest else (k', v') # dict_set rest k v)"

section \<open>Definitions: Python integers as text\<close>

text \<open>
  \<^verbatim>\<open>str(n)\<close> and the format \<^verbatim>\<open>{n:06d}\<close> of a Python integer: decimal digits, a
  minus sign for a negative number, and zeros after the sign up to a width of six.
\<close>

definition digit_char :: "nat \<Rightarrow> char" where
  "digit_char d = ''0123456789'' ! (d mod 10)"

fun digits :: "nat \<Rightarrow> string" where
  "digits n = (if n < 10 then [digit_char n] else digits (n div 10) @ [digit_char (n mod 10)])"

declare digits.simps [simp del]

definition str_int :: "int \<Rightarrow> string" where
  "str_int i = (if i < 0 then ''-'' @ digits (nat (- i)) else digits (nat i))"

definition zfill :: "nat \<Rightarrow> string \<Rightarrow> string" where
  "zfill width s = replicate (width - length s) (CHR ''0'') @ s"

definition format_06d :: "int \<Rightarrow> string" where
  "format_06d i =
     (if i < 0 then ''-'' @ zfill 5 (digits (nat (- i))) else zfill 6 (digits (nat i)))"

section \<open>Definitions: the HL7 encoder (\<^verbatim>\<open>test_pointcare.py\<close>)\<close>

text \<open>The carriage return \<^verbatim>\<open>\r\<close> that ends every segment.\<close>

definition CR :: char where
  "CR = CHR 0x0D"

text \<open>
  \<^verbatim>\<open>create_hl7_message\<close>, lines 34 to 84. The four parts keep the names of the local
  variables. The clock reading \<^verbatim>\<open>datetime.now().strftime(...)\<close> is the argument
  \<open>timestamp\<close>. The backslash of the header is written \<open>CHR 0x5C\<close>.
\<close>

definition msh :: string where
  "msh = ''MSH|^~'' @ [CHR 0x5C]
           @ ''&|PointCare|MNCHIP|||20251125143000||ORU^R01|MSG001|P|2.3'' @ [CR]"

definition pid :: "string \<Rightarrow> string \<Rightarrow> string" where
  "pid sample_id patient_id = ''PID|||'' @ sample_id @ ''|||'' @ patient_id @ ''|||M'' @ [CR]"

definition obr :: "string \<Rightarrow> string \<Rightarrow> string" where
  "obr timestamp test_type =
     ''OBR|||||||'' @ timestamp @ ''||||||||2|||||||||||||||||'' @ test_type @ [CR]"

type_synonym parameter = "string \<times> string \<times> string \<times> string \<times> string \<times> string"

definition parameters :: "parameter list" where
  "parameters =
    [(''1'', ''GLU'', ''95.0'', ''mg/dL'', ''70-110'', ''N''),
     (''2'', ''BUN'', ''18.0'', ''mg/dL'', ''7-27'', ''N''),
     (''3'', ''CRE'', ''1.2'', ''mg/dL'', ''0.5-1.8'', ''N''),
     (''4'', ''ALB'', ''3.8'', ''g/dL'', ''2.3-4.0'', ''N''),
     (''5'', ''TP'', ''6.5'', ''g/dL'', ''5.2-8.2'', ''N''),
     (''6'', ''Ca'', ''10.2'', ''mg/dL'', ''9.0-11.3'', ''N''),
     (''7'', ''P'', ''4.5'', ''mg/dL'', ''2.5-6.8'', ''N''),
     (''8'', ''ALT'', ''45.0'', ''U/L'', ''10-100'', ''N''),
     (''9'', ''ALP'', ''120.0'', ''U/L'', ''23-212'', ''N''),
     (''10'', ''TBIL'', ''0.3'', ''mg/dL'', ''0.0-0.9'', ''N''),
     (''11'', ''CHOL'', ''180.0'', ''mg/dL'', ''110-320'', ''N''),
     (''12'', ''AMY'', ''850.0'', ''U/L'', ''500-1500'', ''N''),
     (''13'', ''K+'', ''4.2'', ''mmol/L'', ''3.5-5.8'', ''N''),
     (''14'', ''Na+'', ''145.0'', ''mmol/L'', ''144-160'', ''N''),
     (''15'', ''Cl-'', ''105.0'', ''mmol/L'', ''109-122'', ''N''),
     (''16'', ''GLO'', ''2.7'', ''g/dL'', ''2.5-4.5'', ''N'')]"

text \<open>The body of the loop of lines 73 to 76: one observation line per parameter.\<close>

fun obx :: "parameter \<Rightarrow> string" where
  "obx (exam_num, param_code, result, unit, ranges, indicator) =
     ''OBX|'' @ exam_num @ ''|||'' @ param_code @ ''|'' @ result @ ''|'' @ unit @ ''|''
       @ ranges @ ''|'' @ indicator @ [CR]"

definition obx_lines :: "string list" where
  "obx_lines = map obx parameters"

definition create_hl7_message :: "string \<Rightarrow> string \<Rightarrow> string \<Rightarrow> string \<Rightarrow> string" where
  "create_hl7_message timestamp patient_id sample_id test_type =
     (let message = msh @ pid sample_id patient_id @ obr timestamp test_type @ concat obx_lines
      in message @ [CR, CR])"

text \<open>The segments in the order in which line 79 joins them.\<close>

definition hl7_segments :: "string \<Rightarrow> string \<Rightarrow> string \<Rightarrow> string \<Rightarrow> string list" where
  "hl7_segments timestamp patient_id sample_id test_type =
     [msh, pid sample_id patient_id, obr timestamp test_type] @ obx_lines"

text \<open>The number of carriage returns a string ends with.\<close>

definition trailing_cr :: "string \<Rightarrow> nat" where
  "trailing_cr s = length (takeWhile (\<lambda>c. c = CR) (rev s))"




section \<open>Definitions: the chemistry panel builder (\<^verbatim>\<open>test_healvet_full_panel.py\<close>)\<close>

text \<open>The panel of lines 25 to 32: parameter code, result value and unit.\<close>

type_synonym panel_entry = "string \<times> string \<times> string"

definition CHEMISTRY_PANEL :: "panel_entry list" where
  "CHEMISTRY_PANEL =
    [(''T4-1'', ''25.3'', ''nmol/L''),
     (''TSH-1'', ''0.15'', ''mIU/L''),
     (''Cortisol-1'', ''85.0'', ''nmol/L''),
     (''cCRP'', ''5.2'', ''mg/L''),
     (''D-Dimer'', ''120.0'', ''ng/mL''),
     (''SAA'', ''3.1'', ''mg/L'')]"

text \<open>
  The loop of lines 102 to 110 of \<^verbatim>\<open>send_chemistry_panel\<close>, over any panel. The
  counter \<open>idx\<close> starts at 1 (\<^verbatim>\<open>enumerate(CHEMISTRY_PANEL, 1)\<close>); the accumulator is
  the variable \<^verbatim>\<open>complete_transmission\<close>. The clock readings \<^verbatim>\<open>base_sample_id\<close> and
  \<^verbatim>\<open>timestamp\<close> are arguments.
\<close>

definition panel_message :: "string \<Rightarrow> string \<Rightarrow> string \<Rightarrow> string \<Rightarrow> string \<Rightarrow> string" where
  "panel_message sample_id result timestamp param_code patient =
     ''#AFS1000&'' @ sample_id @ ''&'' @ result @ ''&'' @ timestamp @ ''&&'' @ param_code
       @ ''&'' @ patient @ ''&&M&1''"

fun panel_loop ::
    "int \<Rightarrow> string \<Rightarrow> string \<Rightarrow> panel_entry list \<Rightarrow> int \<Rightarrow> string \<Rightarrow> string" where
  "panel_loop base_sample_id timestamp patient [] idx acc = acc"
| "panel_loop base_sample_id timestamp patient ((param_code, result, unit) # rest) idx acc =
     (let sample_id = format_06d (base_sample_id + idx);
          message = panel_message sample_id result timestamp param_code patient
      in panel_loop base_sample_id timestamp patient rest (idx + 1) (acc @ message))"

definition complete_transmission ::
    "panel_entry list \<Rightarrow> int \<Rightarrow> string \<Rightarrow> string \<Rightarrow> string" where
  "complete_transmission panel base_sample_id timestamp patient =
     panel_loop base_sample_id timestamp patient panel 1 [] @ ''&EE''"

text \<open>
  The number of positions of a string at which a pattern starts. The consumer reads
  until it sees the two bytes \<^verbatim>\<open>EE\<close>, so every such position counts as a terminator.
\<close>

fun occurrences :: "string \<Rightarrow> string \<Rightarrow> nat" where
  "occurrences pat [] = 0"
| "occurrences pat (c # cs) = (if prefix pat (c # cs) then 1 else 0) + occurrences pat cs"

text \<open>A data field that contains neither the terminator nor the start marker.\<close>

definition marker_free :: "string \<Rightarrow> bool" where
  "marker_free field \<longleftrightarrow> occurrences ''EE'' field = 0 \<and> occurrences ''#AFS1000'' field = 0"

fun entry_marker_free :: "panel_entry \<Rightarrow> bool" where
  "entry_marker_free (param_code, result, unit) \<longleftrightarrow> marker_free param_code \<and> marker_free result"

section \<open>Definitions: the orchestrator (\<^verbatim>\<open>test_devices.py\<close>)\<close>

text \<open>
  A command line is the list of words given to \<^verbatim>\<open>subprocess\<close>. The environment
  holds what the orchestrator cannot decide itself: the directory of the scripts,
  which script files exist, and the return code of the child process that a command
  line starts (the outcome of the runner).
\<close>

type_synonym cmd = "string list"

record env =
  script_dir :: string
  script_exists :: "string \<Rightarrow> bool"
  returncode :: "cmd \<Rightarrow> int"

text \<open>The parsed command line of \<^verbatim>\<open>main\<close>: the attributes of \<^verbatim>\<open>args\<close>.\<close>

record args =
  arg_exigo :: bool
  arg_healvet :: "string option"
  arg_pointcare :: "string option"
  arg_parallel :: bool
  arg_patient_id :: "string option"
  arg_test_type :: string

definition EXIGO_SCRIPT :: "env \<Rightarrow> string" where
  "EXIGO_SCRIPT e = script_dir e @ ''/test_exigo_file_creator.py''"

definition HEALVET_SCRIPT :: "env \<Rightarrow> string" where
  "HEALVET_SCRIPT e = script_dir e @ ''/test_healvet_full_panel.py''"

definition POINTCARE_SCRIPT :: "env \<Rightarrow> string" where
  "POINTCARE_SCRIPT e = script_dir e @ ''/test_pointcare.py''"

text \<open>
  Python's truth value of an optional string: \<^verbatim>\<open>None\<close> and the empty string are
  false. \<^verbatim>\<open>x or d\<close> is \<open>x\<close> when \<open>x\<close> is true and \<open>d\<close> otherwise.
\<close>

fun truthy :: "string option \<Rightarrow> bool" where
  "truthy None = False"
| "truthy (Some s) = (s \<noteq> [])"

fun or_default :: "string option \<Rightarrow> string \<Rightarrow> string" where
  "or_default None d = d"
| "or_default (Some s) d = (if s \<noteq> [] then s else d)"

text \<open>
  The three runners, lines 32 to 78. A runner starts one child process and returns
  whether its return code is 0. The list of command lines started so far is passed
  through, so that the model records which runners ran.
\<close>

definition run_exigo :: "env \<Rightarrow> cmd list \<Rightarrow> bool \<times> cmd list" where
  "run_exigo e started =
     (let cmd = [''python3'', EXIGO_SCRIPT e];
          result = returncode e cmd
      in if result \<noteq> 0 then (False, started @ [cmd]) else (True, started @ [cmd]))"

definition run_healvet :: "string \<Rightarrow> string \<Rightarrow> env \<Rightarrow> cmd list \<Rightarrow> bool \<times> cmd list" where
  "run_healvet serial_port pat e started =
     (let cmd = [''python3'', HEALVET_SCRIPT e, serial_port];
          result = returncode e cmd
      in if result \<noteq> 0 then (False, started @ [cmd]) else (True, started @ [cmd]))"

definition run_pointcare ::
    "string \<Rightarrow> string \<Rightarrow> string \<Rightarrow> env \<Rightarrow> cmd list \<Rightarrow> bool \<times> cmd list" where
  "run_pointcare serial_port pat ttype e started =
     (let cmd = [''python3'', POINTCARE_SCRIPT e, serial_port, pat, ttype];
          result = returncode e cmd
      in if result \<noteq> 0 then (False, started @ [cmd]) else (True, started @ [cmd]))"

text \<open>
  The list \<^verbatim>\<open>tests\<close> of lines 147 to 158: a name and a closure for each selected
  device, in the fixed order exigo, healvet, pointcare.
\<close>

type_synonym test = "string \<times> (env \<Rightarrow> cmd list \<Rightarrow> bool \<times> cmd list)"

definition build_tests :: "args \<Rightarrow> test list" where
  "build_tests a =
     (if arg_exigo a then [(''exigo'', run_exigo)] else [])
     @ (case arg_healvet a of
          Some port \<Rightarrow>
            (if port \<noteq> []
             then [(''healvet'', run_healvet port (or_default (arg_patient_id a) ''TESTDOG-001''))]
             else [])
        | None \<Rightarrow> [])
     @ (case arg_pointcare a of
          Some port \<Rightarrow>
            (if port \<noteq> []
             then [(''pointcare'',
                    run_pointcare port (or_default (arg_patient_id a) ''TESTDOG-001'')
                      (arg_test_type a))]
             else [])
        | None \<Rightarrow> [])"

text \<open>The dictionary \<^verbatim>\<open>results\<close> of \<^verbatim>\<open>main\<close>: device name to success.\<close>

type_synonym results = "(string \<times> bool) list"

text \<open>The sequential loop of lines 220 to 229: a failure does not leave the loop.\<close>

fun run_sequential :: "env \<Rightarrow> test list \<Rightarrow> results \<Rightarrow> cmd list \<Rightarrow> results \<times> cmd list" where
  "run_sequential e [] results started = (results, started)"
| "run_sequential e ((name, test_func) # tests) results started =
     (let (success, started') = test_func e started
      in run_sequential e tests (dict_set results name success) started')"

text \<open>
  The parallel branch, lines 176 to 188. The variable \<^verbatim>\<open>cmd\<close> is assigned by an
  \<^verbatim>\<open>if/elif\<close> chain on the name; a name outside the chain would leave it as the
  previous iteration set it, or unbound in the first iteration. An argument that is
  \<^verbatim>\<open>None\<close> cannot be a word of a command line.
\<close>

definition parallel_cmd :: "args \<Rightarrow> env \<Rightarrow> string \<Rightarrow> cmd option \<Rightarrow> exn + cmd" where
  "parallel_cmd a e name previous =
     (if name = ''exigo'' then Inr [''python3'', EXIGO_SCRIPT e]
      else if name = ''healvet'' then
        (case arg_healvet a of
           Some port \<Rightarrow> Inr [''python3'', HEALVET_SCRIPT e, port]
         | None \<Rightarrow> Inl TypeError)
      else if name = ''pointcare'' then
        (case arg_pointcare a of
           Some port \<Rightarrow>
             Inr [''python3'', POINTCARE_SCRIPT e, port,
                  or_default (arg_patient_id a) ''TESTDOG-001'', arg_test_type a]
         | None \<Rightarrow> Inl TypeError)
      else (case previous of Some c \<Rightarrow> Inr c | None \<Rightarrow> Inl UnboundLocalError))"

fun start_all ::
    "args \<Rightarrow> env \<Rightarrow> test list \<Rightarrow> cmd option \<Rightarrow> (string \<times> cmd) list
      \<Rightarrow> exn + (string \<times> cmd) list" where
  "start_all a e [] previous processes = Inr processes"
| "start_all a e ((name, test_func) # tests) previous processes =
     (case parallel_cmd a e name previous of
        Inl x \<Rightarrow> Inl x
      | Inr c \<Rightarrow> start_all a e tests (Some c) (processes @ [(name, c)]))"

text \<open>The wait loop of lines 193 to 197.\<close>

fun wait_all :: "env \<Rightarrow> (string \<times> cmd) list \<Rightarrow> results \<Rightarrow> results" where
  "wait_all e [] results = results"
| "wait_all e ((name, proc) # processes) results =
     (let return_code = returncode e proc
      in wait_all e processes (dict_set results name (return_code = 0)))"

text \<open>
  What a run of \<^verbatim>\<open>main\<close> leaves behind: the exit status, the entries of the printed
  summary (\<open>None\<close> when \<^verbatim>\<open>main\<close> exits before the summary), and the command lines
  started, in order. An exception that nothing catches ends the run as \<open>Uncaught\<close>.
\<close>

datatype outcome =
    Exit int "results option" "cmd list"
  | Uncaught exn

definition all_values :: "results \<Rightarrow> bool" where
  "all_values results = list_all (\<lambda>v. v) (map snd results)"

definition main :: "args \<Rightarrow> env \<Rightarrow> outcome" where
  "main a e =
     (if \<not> (arg_exigo a \<or> truthy (arg_healvet a) \<or> truthy (arg_pointcare a)) then
        Exit 1 None []
      else if \<not> script_exists e (EXIGO_SCRIPT e) then Exit 1 None []
      else if \<not> script_exists e (HEALVET_SCRIPT e) then Exit 1 None []
      else if \<not> script_exists e (POINTCARE_SCRIPT e) then Exit 1 None []
      else
        (let tests = build_tests a in
         if arg_parallel a then
           (case start_all a e tests None [] of
              Inl x \<Rightarrow> Uncaught x
            | Inr processes \<Rightarrow>
                (let results = wait_all e processes [];
                     all_passed = all_values results
                 in if all_passed then Exit 0 (Some results) (map snd processes)
                    else Exit 1 (Some results) (map snd processes)))
         else
           (let (results, started) = run_sequential e tests [] [];
                all_passed = all_values results
            in if all_passed then Exit 0 (Some results) started
               else Exit 1 (Some results) started)))"

text \<open>
  The names of the selected devices and the command line of each, for stating what
  \<^verbatim>\<open>main\<close> does: a device is selected when its flag is true (a port that is a
  non-empty string).
\<close>

definition selected :: "args \<Rightarrow> string list" where
  "selected a =
     (if arg_exigo a then [''exigo''] else [])
     @ (if truthy (arg_healvet a) then [''healvet''] else [])
     @ (if truthy (arg_pointcare a) then [''pointcare''] else [])"

definition runner_cmd :: "args \<Rightarrow> env \<Rightarrow> string \<Rightarrow> cmd" where
  "runner_cmd a e name =
     (if name = ''exigo'' then [''python3'', EXIGO_SCRIPT e]
      else if name = ''healvet'' then [''python3'', HEALVET_SCRIPT e, or_default (arg_healvet a) []]
      else [''python3'', POINTCARE_SCRIPT e, or_default (arg_pointcare a) [],
            or_default (arg_patient_id a) ''TESTDOG-001'', arg_test_type a])"

definition succeeded :: "args \<Rightarrow> env \<Rightarrow> string \<Rightarrow> bool" where
  "succeeded a e name = (returncode e (runner_cmd a e name) = 0)"

definition scripts_present :: "env \<Rightarrow> bool" where
  "scripts_present e =
     (script_exists e (EXIGO_SCRIPT e) \<and> script_exists e (HEALVET_SCRIPT e)
      \<and> script_exists e (POINTCARE_SCRIPT e))"

text \<open>
  Concrete runs: all three devices selected, nothing selected, and an environment in
  which the scripts are present and only the Healvet runner fails.
\<close>

definition all_three :: args where
  "all_three =
     \<lparr>arg_exigo = True, arg_healvet = Some ''/dev/ttys013'',
      arg_pointcare = Some ''/dev/ttys014'', arg_parallel = False,
      arg_patient_id = None, arg_test_type = ''55''\<rparr>"

definition nothing_selected :: args where
  "nothing_selected =
     \<lparr>arg_exigo = False, arg_healvet = None, arg_pointcare = None, arg_parallel = False,
      arg_patient_id = None, arg_test_type = ''55''\<rparr>"

definition healvet_fails :: env where
  "healvet_fails =
     \<lparr>script_dir = ''.'',
      script_exists = (\<lambda>_. True),
      returncode = (\<lambda>c. if ''./test_healvet_full_panel.py'' \<in> set c then 1 else 0)\<rparr>"

section \<open>Definitions: the file system\<close>

text \<open>
  The part of the operating system that \<^verbatim>\<open>test_exigo_file_creator.py\<close> touches. A
  path is the list of its components below the current directory, which always
  exists; the empty list is the empty path \<^verbatim>\<open>""\<close>. The file system is an association
  list from non-empty paths to nodes, a regular file with its content or a directory.
  Symbolic links, permissions and metadata are not modelled.
\<close>

datatype node = File string | Dir

type_synonym path = "string list"

type_synonym fs = "(path \<times> node) list"

text \<open>
  \<^verbatim>\<open>os.path.exists\<close>, \<^verbatim>\<open>os.path.isdir\<close> and \<^verbatim>\<open>os.listdir\<close>. The first two are
  false for the empty path. \<^verbatim>\<open>Path(p).exists()\<close> is true for it: \<^verbatim>\<open>Path("")\<close> is the
  current directory.
\<close>

definition path_exists :: "fs \<Rightarrow> path \<Rightarrow> bool" where
  "path_exists fs p \<longleftrightarrow> p \<noteq> [] \<and> map_of fs p \<noteq> None"

definition isdir :: "fs \<Rightarrow> path \<Rightarrow> bool" where
  "isdir fs p \<longleftrightarrow> p \<noteq> [] \<and> map_of fs p = Some Dir"

definition pathlib_exists :: "fs \<Rightarrow> path \<Rightarrow> bool" where
  "pathlib_exists fs p \<longleftrightarrow> p = [] \<or> path_exists fs p"

definition listdir :: "fs \<Rightarrow> path \<Rightarrow> string list" where
  "listdir fs d = map last (filter (\<lambda>p. p \<noteq> [] \<and> butlast p = d) (map fst fs))"

text \<open>
  \<^verbatim>\<open>os.mkdir\<close>: the path must not be empty and must not exist, and its parent must
  be the current directory or a directory.
\<close>

definition mkdir :: "fs \<Rightarrow> path \<Rightarrow> exn + fs" where
  "mkdir fs d =
     (if d = [] then Inl FileNotFoundError
      else if path_exists fs d then Inl FileExistsError
      else if butlast d = [] then Inr (dict_set fs d Dir)
      else if \<not> path_exists fs (butlast d) then Inl FileNotFoundError
      else if \<not> isdir fs (butlast d) then Inl NotADirectoryError
      else Inr (dict_set fs d Dir))"

text \<open>
  \<^verbatim>\<open>os.makedirs(name, exist_ok=True)\<close>, after the library's source: make the parent
  first when the path has one and it does not exist (a \<^verbatim>\<open>FileExistsError\<close> of that
  call is passed over), then make the directory itself; an error of that last step is
  dropped when the path is a directory. For the empty path that last step raises
  \<^verbatim>\<open>FileNotFoundError\<close>. The result is the exception raised, if any, and the file
  system left behind.
\<close>

definition mkdir_exist_ok :: "fs \<Rightarrow> path \<Rightarrow> exn option \<times> fs" where
  "mkdir_exist_ok fs d =
     (case mkdir fs d of
        Inr fs' \<Rightarrow> (None, fs')
      | Inl e \<Rightarrow> if isdir fs d then (None, fs) else (Some e, fs))"

function makedirs :: "fs \<Rightarrow> path \<Rightarrow> exn option \<times> fs" where
  "makedirs fs d =
     (if butlast d \<noteq> [] \<and> \<not> path_exists fs (butlast d) then
        (case makedirs fs (butlast d) of
           (raised, fs1) \<Rightarrow>
             if raised = None \<or> raised = Some FileExistsError then mkdir_exist_ok fs1 d
             else (raised, fs1))
      else mkdir_exist_ok fs d)"
  by pat_completeness auto
termination
  by (relation "measure (\<lambda>(fs, d). length d)") (auto intro!: diff_less)

declare makedirs.simps [simp del]

text \<open>
  \<^verbatim>\<open>shutil.copy2(src, dst)\<close>: a destination that is a directory stands for the file of
  the source's name inside it; copying a file onto itself, reading a directory, a
  missing file or the empty path, and writing to a directory, to the empty path or
  below a missing parent raise.
\<close>

definition copy2 :: "fs \<Rightarrow> path \<Rightarrow> path \<Rightarrow> exn + fs" where
  "copy2 fs src dst =
     (if src = [] then Inl FileNotFoundError
      else
        (let dst' = (if isdir fs dst then dst @ [last src] else dst) in
         if path_exists fs src \<and> src = dst' then Inl SameFileError
         else
           (case map_of fs src of
              None \<Rightarrow> Inl FileNotFoundError
            | Some Dir \<Rightarrow> Inl IsADirectoryError
            | Some (File content) \<Rightarrow>
                if isdir fs dst' then Inl IsADirectoryError
                else if dst' = [] then Inl FileNotFoundError
                else if butlast dst' = [] then Inr (dict_set fs dst' (File content))
                else if \<not> path_exists fs (butlast dst') then Inl FileNotFoundError
                else if \<not> isdir fs (butlast dst') then Inl NotADirectoryError
                else Inr (dict_set fs dst' (File content)))))"

text \<open>
  What \<^verbatim>\<open>makedirs\<close> may do to a file system: every node stays as it is, and a
  new node is a directory on the way to the requested path.
\<close>

definition grown :: "path \<Rightarrow> fs \<Rightarrow> fs \<Rightarrow> bool" where
  "grown d fs fs' \<longleftrightarrow>
     (\<forall>p n. map_of fs p = Some n \<longrightarrow> map_of fs' p = Some n)
     \<and> (\<forall>p. map_of fs p = None \<longrightarrow> map_of fs' p \<noteq> None \<longrightarrow>
            map_of fs' p = Some Dir \<and> p \<noteq> [] \<and> prefix p d)"

section \<open>Definitions: Python string methods\<close>

text \<open>
  \<^verbatim>\<open>s.startswith(p)\<close> and \<^verbatim>\<open>s.endswith(p)\<close>; \<^verbatim>\<open>s.replace(old, '')\<close>, which removes
  every occurrence of \<open>old\<close> from left to right (and nothing when \<open>old\<close> is empty).
\<close>

definition startswith :: "string \<Rightarrow> string \<Rightarrow> bool" where
  "startswith s p = prefix p s"

definition endswith :: "string \<Rightarrow> string \<Rightarrow> bool" where
  "endswith s p = suffix p s"

function remove_all :: "string \<Rightarrow> string \<Rightarrow> string" where
  "remove_all old [] = []"
| "remove_all old (c # cs) =
     (if old \<noteq> [] \<and> prefix old (c # cs) then remove_all old (drop (length old) (c # cs))
      else c # remove_all old cs)"
  by pat_completeness auto
termination
  by (relation "measure (\<lambda>(old, s). length s)") auto

text \<open>
  \<^verbatim>\<open>int(s)\<close> for a string of ASCII characters: white space around the number is
  dropped, one sign is allowed, and single underscores may stand between digits.
  \<open>None\<close> is the \<^verbatim>\<open>ValueError\<close>. Digits and white space outside ASCII, which Python
  accepts too, are not modelled.
\<close>

definition is_space :: "char \<Rightarrow> bool" where
  "is_space c \<longleftrightarrow>
     c \<in> set [CHR 0x09, CHR 0x0A, CHR 0x0B, CHR 0x0C, CHR 0x0D, CHR 0x20]"

definition strip :: "string \<Rightarrow> string" where
  "strip s = rev (dropWhile is_space (rev (dropWhile is_space s)))"

definition is_digit :: "char \<Rightarrow> bool" where
  "is_digit c \<longleftrightarrow> c \<in> set ''0123456789''"

definition digit_val :: "char \<Rightarrow> nat" where
  "digit_val c = of_char c - 48"

fun parse_digits :: "bool \<Rightarrow> string \<Rightarrow> nat \<Rightarrow> nat option" where
  "parse_digits after_digit [] acc = (if after_digit then Some acc else None)"
| "parse_digits after_digit (c # cs) acc =
     (if is_digit c then parse_digits True cs (10 * acc + digit_val c)
      else if c = CHR ''_'' \<and> after_digit then parse_digits False cs acc
      else None)"

definition py_int :: "string \<Rightarrow> int option" where
  "py_int s =
     (case strip s of
        [] \<Rightarrow> None
      | c # cs \<Rightarrow>
          if c = CHR ''-'' then map_option (\<lambda>n. - int n) (parse_digits False cs 0)
          else if c = CHR ''+'' then map_option int (parse_digits False cs 0)
          else map_option int (parse_digits False (c # cs) 0))"

text \<open>
  \<^verbatim>\<open>Path(p).stem\<close>: the last component without its last suffix. A dot that is the
  first or the last character of the name does not start a suffix.
\<close>

definition rfind :: "char \<Rightarrow> string \<Rightarrow> nat option" where
  "rfind c s =
     (if c \<in> set s then Some (length s - 1 - length (takeWhile (\<lambda>x. x \<noteq> c) (rev s)))
      else None)"

definition stem :: "path \<Rightarrow> string" where
  "stem p =
     (let name = (if p = [] then [] else last p) in
      case rfind (CHR ''.'') name of
        None \<Rightarrow> name
      | Some i \<Rightarrow> if 0 < i \<and> i < length name - 1 then take i name else name)"

section \<open>Definitions: the versioned file emitter (\<^verbatim>\<open>test_exigo_file_creator.py\<close>)\<close>

text \<open>
  The body of the loop of \<^verbatim>\<open>get_next_version\<close>, lines 80 to 91: the version number
  that the scan reads from one file name, or \<open>None\<close> when the name is passed over
  (the test of line 82 fails, the rest does not start with \<^verbatim>\<open>_v\<close>, or \<^verbatim>\<open>int\<close>
  raises \<^verbatim>\<open>ValueError\<close>).
\<close>

definition file_version :: "string \<Rightarrow> string \<Rightarrow> int option" where
  "file_version base_name filename =
     (if startswith filename base_name \<and> endswith filename ''.xml'' then
        (let version_part = remove_all ''.xml'' (remove_all base_name filename) in
         if startswith version_part ''_v'' then py_int (drop 2 version_part) else None)
      else None)"

fun scan_versions :: "string \<Rightarrow> string list \<Rightarrow> int \<Rightarrow> int" where
  "scan_versions base_name [] max_version = max_version"
| "scan_versions base_name (filename # rest) max_version =
     (case file_version base_name filename of
        Some version_num \<Rightarrow> scan_versions base_name rest (max max_version version_num)
      | None \<Rightarrow> scan_versions base_name rest max_version)"

text \<open>
  \<^verbatim>\<open>get_next_version\<close>, lines 64 to 93. \<^verbatim>\<open>os.listdir\<close> of a path that is not a
  directory raises; the empty path does not exist for \<^verbatim>\<open>os.path.exists\<close>.
\<close>

definition get_next_version :: "fs \<Rightarrow> path \<Rightarrow> string \<Rightarrow> exn + int" where
  "get_next_version fs directory base_name =
     (if \<not> path_exists fs directory then Inr 1
      else if \<not> isdir fs directory then Inl NotADirectoryError
      else Inr (scan_versions base_name (listdir fs directory) 0 + 1))"

definition target_name :: "string \<Rightarrow> int \<Rightarrow> string" where
  "target_name base_name version = base_name @ ''_v'' @ str_int version @ ''.xml''"

text \<open>
  \<^verbatim>\<open>create_versioned_file\<close>, lines 95 to 129. The test of line 109 is
  \<^verbatim>\<open>Path(source_file).exists()\<close>. The result is the raised exception or the returned
  pair, together with the file system left behind.
\<close>

definition create_versioned_file ::
    "fs \<Rightarrow> path \<Rightarrow> path \<Rightarrow> int option \<Rightarrow> (exn + path \<times> int) \<times> fs" where
  "create_versioned_file fs source_file target_directory version =
     (if \<not> pathlib_exists fs source_file then (Inl FileNotFoundError, fs)
      else
        (case makedirs fs target_directory of
           (Some e, fs1) \<Rightarrow> (Inl e, fs1)
         | (None, fs1) \<Rightarrow>
             (let base_name = stem source_file in
              case (case version of
                      None \<Rightarrow> get_next_version fs1 target_directory base_name
                    | Some v \<Rightarrow> Inr v) of
                Inl e \<Rightarrow> (Inl e, fs1)
              | Inr version' \<Rightarrow>
                  (let target_filename = target_name base_name version';
                       target_path = target_directory @ [target_filename]
                   in case copy2 fs1 source_file target_path of
                        Inl e \<Rightarrow> (Inl e, fs1)
                      | Inr fs2 \<Rightarrow> (Inr (target_path, version'), fs2)))))"

text \<open>
  The loop of \<^verbatim>\<open>main\<close>, lines 182 to 200, for \<^verbatim>\<open>count\<close> files: the first call gets
  \<^verbatim>\<open>args.start_version\<close>, every later call the version after the one just used. An
  exception leaves the loop (the script then exits with status 1).
\<close>

fun creator_loop ::
    "fs \<Rightarrow> path \<Rightarrow> path \<Rightarrow> nat \<Rightarrow> int option \<Rightarrow> (path \<times> int) list
      \<Rightarrow> (exn + (path \<times> int) list) \<times> fs" where
  "creator_loop fs source_file target_dir 0 current_version created = (Inr created, fs)"
| "creator_loop fs source_file target_dir (Suc n) current_version created =
     (case create_versioned_file fs source_file target_dir current_version of
        (Inl e, fs') \<Rightarrow> (Inl e, fs')
      | (Inr (target_path, version), fs') \<Rightarrow>
          creator_loop fs' source_file target_dir n
            (case current_version of None \<Rightarrow> Some (version + 1) | Some c \<Rightarrow> Some (c + 1))
            (created @ [(target_path, version)]))"

definition creator_main ::
    "fs \<Rightarrow> path \<Rightarrow> path \<Rightarrow> nat \<Rightarrow> int option \<Rightarrow> (exn + (path \<times> int) list) \<times> fs" where
  "creator_main fs source_file target_dir count start_version =
     creator_loop fs source_file target_dir count start_version []"

text \<open>
  The version and the target path that a call of \<^verbatim>\<open>create_versioned_file\<close> settles
  on once \<^verbatim>\<open>makedirs\<close> has run: the given version, or the result of the scan.
\<close>

definition chosen_version :: "fs \<Rightarrow> path \<Rightarrow> path \<Rightarrow> int option \<Rightarrow> int" where
  "chosen_version fs source_file target_directory version =
     (case version of
        Some v \<Rightarrow> v
      | None \<Rightarrow>
          scan_versions (stem source_file)
            (listdir (snd (makedirs fs target_directory)) target_directory) 0 + 1)"

definition chosen_target :: "fs \<Rightarrow> path \<Rightarrow> path \<Rightarrow> int option \<Rightarrow> path" where
  "chosen_target fs source_file target_directory version =
     target_directory
       @ [target_name (stem source_file)
            (chosen_version fs source_file target_directory version)]"

text \<open>
  The state in which a call needs no new directory: the source is a regular file with
  content \<open>c\<close>, the target directory exists, and its parent is the current directory
  or exists.
\<close>

definition ready :: "fs \<Rightarrow> path \<Rightarrow> path \<Rightarrow> string \<Rightarrow> bool" where
  "ready fs source_file target_directory c \<longleftrightarrow>
     map_of fs source_file = Some (File c) \<and> source_file \<noteq> []
     \<and> isdir fs target_directory
     \<and> (butlast target_directory = [] \<or> path_exists fs (butlast target_directory))"

text \<open>
  The scan as the specification words it: a file name matches when it is the base
  name, then \<^verbatim>\<open>_v\<close>, then one or more decimal digits, then \<^verbatim>\<open>.xml\<close>; \<open>m\<close> is the
  highest version among the matching names, and 0 when none matches.
\<close>

definition spec_file_version :: "string \<Rightarrow> string \<Rightarrow> int option" where
  "spec_file_version base_name filename =
     (if prefix (base_name @ ''_v'') filename \<and> suffix ''.xml'' filename
         \<and> length base_name + 6 \<le> length filename then
        (let ds = take (length filename - length base_name - 6)
                    (drop (length base_name + 2) filename)
         in if ds \<noteq> [] \<and> list_all is_digit ds
            then Some (int (foldl (\<lambda>acc c. 10 * acc + digit_val c) 0 ds))
            else None)
      else None)"

definition spec_highest :: "string \<Rightarrow> string list \<Rightarrow> int" where
  "spec_highest base_name names =
     fold max (List.map_filter (spec_file_version base_name) names) 0"

text \<open>
  Concrete file systems: a template directory and a watched directory that holds
  version 7 of the default template; an empty watched directory beside a template
  named \<^verbatim>\<open>x.xml\<close>, before and after that template has been published once; and the
  watched directory holding a version 1 of other content, as an earlier run left it.
\<close>

definition watch_fs :: fs where
  "watch_fs =
     [([''templates''], Dir),
      ([''templates'', ''exigo_test_proper.xml''], File ''<exigo/>''),
      ([''watch''], Dir),
      ([''watch'', ''exigo_test_proper_v7.xml''], File ''<old/>'')]"

definition x_fs :: fs where
  "x_fs =
     [([''templates''], Dir),
      ([''templates'', ''x.xml''], File ''<exigo/>''),
      ([''watch''], Dir)]"

definition x_fs_v1 :: fs where
  "x_fs_v1 =
     [([''templates''], Dir),
      ([''templates'', ''x.xml''], File ''<exigo/>''),
      ([''watch''], Dir),
      ([''watch'', ''x_v1.xml''], File ''<exigo/>'')]"

definition x_fs_old :: fs where
  "x_fs_old =
     [([''templates''], Dir),
      ([''templates'', ''x.xml''], File ''<exigo/>''),
      ([''watch''], Dir),
      ([''watch'', ''x_v1.xml''], File ''<old/>'')]"

section \<open>Definitions: the bridge teardown (\<^verbatim>\<open>serial_bridge.py\<close>)\<close>

text \<open>
  The operating system as \<^verbatim>\<open>close\<close> sees it. A port path is absent, resolves to an
  existing file (\<open>Live\<close>), or is a symbolic link whose target is gone (\<open>Broken\<close>):
  \<^verbatim>\<open>os.path.exists\<close> follows links and is false for a broken one. The helper process
  is running or not, and a socket is open or not. What the helper does to its links
  when it exits is not modelled.
\<close>

datatype link = Absent | Live | Broken

record os_state =
  links :: "string \<Rightarrow> link"
  socat_running :: bool
  socket_open :: "nat \<Rightarrow> bool"

text \<open>
  Which calls the operating system refuses. Every call of \<^verbatim>\<open>close\<close> may fail; a
  value of this record fixes which ones do in one run.
\<close>

record faults =
  terminate_raises :: bool
  wait_raises :: bool
  kill_raises :: bool
  unlink_raises :: "string \<Rightarrow> bool"
  socket_close_raises :: "nat \<Rightarrow> bool"

text \<open>
  A statement either raises or returns, and leaves a state behind. \<open>then_do\<close> is the
  sequence of two statements: an exception of the first skips the second.
  \<open>try_except\<close> is \<^verbatim>\<open>try: ... except: ...\<close> with a bare \<^verbatim>\<open>except\<close>: the handler runs
  in the state the exception left. \<open>pass\<close> does nothing.
\<close>

type_synonym 's run = "exn option \<times> 's"

definition then_do :: "'s run \<Rightarrow> ('s \<Rightarrow> 's run) \<Rightarrow> 's run" where
  "then_do first second =
     (case first of (Some e, s) \<Rightarrow> (Some e, s) | (None, s) \<Rightarrow> second s)"

definition try_except :: "'s run \<Rightarrow> ('s \<Rightarrow> 's run) \<Rightarrow> 's run" where
  "try_except body handler =
     (case body of (Some e, s) \<Rightarrow> handler s | (None, s) \<Rightarrow> (None, s))"

definition pass :: "'s \<Rightarrow> 's run" where
  "pass s = (None, s)"

text \<open>The calls of the operating system that \<^verbatim>\<open>close\<close> makes.\<close>

definition os_path_exists :: "os_state \<Rightarrow> string \<Rightarrow> bool" where
  "os_path_exists os port \<longleftrightarrow> links os port = Live"

definition os_unlink :: "faults \<Rightarrow> string \<Rightarrow> os_state \<Rightarrow> os_state run" where
  "os_unlink f port os =
     (if unlink_raises f port then (Some PermissionError, os)
      else if links os port = Absent then (Some FileNotFoundError, os)
      else (None, os\<lparr>links := (links os)(port := Absent)\<rparr>))"

definition terminate :: "faults \<Rightarrow> os_state \<Rightarrow> os_state run" where
  "terminate f os = (if terminate_raises f then (Some PermissionError, os) else (None, os))"

definition wait :: "faults \<Rightarrow> os_state \<Rightarrow> os_state run" where
  "wait f os =
     (if wait_raises f then (Some TimeoutExpired, os)
      else (None, os\<lparr>socat_running := False\<rparr>))"

definition kill :: "faults \<Rightarrow> os_state \<Rightarrow> os_state run" where
  "kill f os =
     (if kill_raises f then (Some PermissionError, os)
      else (None, os\<lparr>socat_running := False\<rparr>))"


text \<open>
  \<^verbatim>\<open>UnixSerialBridge\<close> and its \<^verbatim>\<open>close\<close>, lines 85 to 103. The attribute
  \<^verbatim>\<open>socat_process\<close> is \<^verbatim>\<open>None\<close> or the handle of the helper process.
\<close>

record unix_bridge =
  device_name :: string
  app_port :: string
  test_port :: string
  socat_process :: "nat option"

fun cleanup_symlinks :: "faults \<Rightarrow> string list \<Rightarrow> os_state \<Rightarrow> os_state run" where
  "cleanup_symlinks f [] os = pass os"
| "cleanup_symlinks f (port # ports) os =
     then_do
       (if os_path_exists os port then try_except (os_unlink f port os) pass else pass os)
       (cleanup_symlinks f ports)"

definition unix_close :: "faults \<Rightarrow> unix_bridge \<Rightarrow> os_state \<Rightarrow> os_state run" where
  "unix_close f self os =
     then_do
       (if socat_process self \<noteq> None then
          try_except (then_do (terminate f os) (wait f))
            (\<lambda>os'. try_except (kill f os') pass)
        else pass os)
       (cleanup_symlinks f [app_port self, test_port self])"








section \<open>Proofs: the HL7 encoder\<close>

lemma trailing_cr_snoc_CR: "trailing_cr (s @ [CR]) = Suc (trailing_cr s)"
  by (simp add: trailing_cr_def)

lemma obx_lines_last:
  "concat obx_lines = concat (butlast obx_lines) @ ''OBX|16|||GLO|2.7|g/dL|2.5-4.5|N'' @ [CR]"
  by (simp add: obx_lines_def parameters_def)

lemma create_hl7_message_trailing: "trailing_cr (create_hl7_message ts patient_id sample_id tt) = 3"
proof -
  have "create_hl7_message ts patient_id sample_id tt =
      (msh @ pid sample_id patient_id @ obr ts tt @ concat (butlast obx_lines)
         @ ''OBX|16|||GLO|2.7|g/dL|2.5-4.5|'') @ [CHR ''N''] @ [CR] @ [CR] @ [CR]"
    by (simp add: create_hl7_message_def obx_lines_last)
  then show ?thesis
    by (simp only: trailing_cr_def rev_append rev.simps append_Nil takeWhile.simps append_Cons)
       (simp add: CR_def)
qed

lemma trailing_cr_cons_clean:
  "trailing_cr t = 0 \<Longrightarrow> c \<noteq> CR \<Longrightarrow> trailing_cr (s @ c # t) = 0"
  by (cases t rule: rev_cases) (simp_all add: trailing_cr_def split: if_splits)

lemma trailing_cr_msh: "trailing_cr msh = 1"
  by (simp add: msh_def trailing_cr_def CR_def)

lemma trailing_cr_pid: "trailing_cr (pid sample_id patient_id) = 1"
proof -
  have "pid sample_id patient_id = (''PID|||'' @ sample_id @ ''|||'' @ patient_id @ ''|||'') @ [CHR ''M''] @ [CR]"
    by (simp add: pid_def)
  then show ?thesis
    by (simp only: trailing_cr_def rev_append rev.simps append_Nil takeWhile.simps append_Cons)
       (simp add: CR_def)
qed

lemma trailing_cr_obr: "trailing_cr tt = 0 \<Longrightarrow> trailing_cr (obr ts tt) = 1"
proof -
  assume clean: "trailing_cr tt = 0"
  have "obr ts tt = ((''OBR|||||||'' @ ts @ ''||||||||2||||||||||||||||'') @ CHR ''|'' # tt) @ [CR]"
    by (simp add: obr_def)
  moreover have "trailing_cr ((''OBR|||||||'' @ ts @ ''||||||||2||||||||||||||||'') @ CHR ''|'' # tt) = 0"
    using clean by (intro trailing_cr_cons_clean) (simp_all add: CR_def)
  ultimately show ?thesis
    by (simp only: trailing_cr_snoc_CR)
qed

lemma trailing_cr_obx_lines: "\<forall>seg \<in> set obx_lines. trailing_cr seg = 1"
  by (simp add: obx_lines_def parameters_def trailing_cr_def CR_def)

text \<open>
  Claim C1, as amended. Every message of the encoder ends with exactly three carriage
  returns: the terminator of the last observation segment followed by the
  two-character end marker of line 82. The message is the segments in order followed
  by that marker, and each segment ends with exactly one carriage return, provided the
  test-type code does not itself end with one.
\<close>

theorem hl7_message_ends_with_three_cr:
  "trailing_cr (create_hl7_message timestamp patient_id sample_id test_type) = 3
   \<and> create_hl7_message timestamp patient_id sample_id test_type
       = concat (hl7_segments timestamp patient_id sample_id test_type) @ [CR, CR]
   \<and> (trailing_cr test_type = 0 \<longrightarrow>
        (\<forall>seg \<in> set (hl7_segments timestamp patient_id sample_id test_type).
           trailing_cr seg = 1))"
proof (intro conjI impI)
  show "trailing_cr (create_hl7_message timestamp patient_id sample_id test_type) = 3"
    by (rule create_hl7_message_trailing)
  show "create_hl7_message timestamp patient_id sample_id test_type
       = concat (hl7_segments timestamp patient_id sample_id test_type) @ [CR, CR]"
    by (simp add: create_hl7_message_def hl7_segments_def)
  assume "trailing_cr test_type = 0"
  then show "\<forall>seg \<in> set (hl7_segments timestamp patient_id sample_id test_type).
           trailing_cr seg = 1"
    using trailing_cr_obx_lines
    by (simp add: hl7_segments_def trailing_cr_msh trailing_cr_pid trailing_cr_obr)
qed

text \<open>The amended claim C1 at the default arguments of the encoder.\<close>

theorem hl7_message_ends_with_three_cr_witness:
  "trailing_cr ''55'' = 0
   \<and> trailing_cr (create_hl7_message ''20251125143000'' ''DOG123'' ''PC001'' ''55'') = 3
   \<and> map trailing_cr (hl7_segments ''20251125143000'' ''DOG123'' ''PC001'' ''55'')
       = replicate 19 1"
proof -
  have clean: "trailing_cr ''55'' = 0"
    by (simp add: trailing_cr_def CR_def)
  note inst = hl7_message_ends_with_three_cr
    [of "''20251125143000''" "''DOG123''" "''PC001''" "''55''"]
  from inst have three: "trailing_cr (create_hl7_message ''20251125143000'' ''DOG123'' ''PC001'' ''55'') = 3"
    by (rule conjunct1)
  from inst clean have segs: "\<forall>seg \<in> set (hl7_segments ''20251125143000'' ''DOG123'' ''PC001'' ''55'').
           trailing_cr seg = 1"
    by blast
  have "length (hl7_segments ''20251125143000'' ''DOG123'' ''PC001'' ''55'') = 19"
    by (simp add: hl7_segments_def obx_lines_def parameters_def)
  moreover from segs
  have "map trailing_cr (hl7_segments ''20251125143000'' ''DOG123'' ''PC001'' ''55'')
       = map (\<lambda>_. 1) (hl7_segments ''20251125143000'' ''DOG123'' ''PC001'' ''55'')"
    by (simp only: map_eq_conv)
  ultimately
  have all_one: "map trailing_cr (hl7_segments ''20251125143000'' ''DOG123'' ''PC001'' ''55'')
       = replicate 19 1"
    by (simp only: map_replicate_const)
  from clean three all_one show ?thesis
    by (intro conjI)
qed

text \<open>
  Claim C1 as stated (the message ends with exactly two carriage returns, never three)
  fails at the default arguments: the message ends with three.
\<close>

theorem hl7_message_two_cr_counterexample:
  "trailing_cr (create_hl7_message ''20251125143000'' ''DOG123'' ''PC001'' ''55'') \<noteq> 2"
  by (simp add: create_hl7_message_trailing)





section \<open>Proofs: the chemistry panel builder\<close>

lemma digit_char_in: "digit_char d \<in> set ''0123456789''"
  unfolding digit_char_def by (rule nth_mem) simp

lemma digits_chars: "set (digits n) \<subseteq> set ''0123456789''"
proof (induction n rule: digits.induct)
  case (1 n)
  show ?case
  proof (cases "n < 10")
    case True
    with digit_char_in [of n] show ?thesis
      by (subst digits.simps) simp
  next
    case False
    with "1" digit_char_in [of "n mod 10"] show ?thesis
      by (subst digits.simps) simp
  qed
qed

lemma format_06d_chars_in:
  assumes "\<And>n. set (digits n) \<subseteq> D" and "CHR ''0'' \<in> D"
  shows "set (format_06d i) \<subseteq> insert (CHR ''-'') D"
  using assms(1) [of "nat i"] assms(1) [of "nat (- i)"] assms(2)
  by (auto simp: format_06d_def zfill_def)

lemma not_in_format_06d:
  assumes "c \<noteq> CHR ''-''" and "c \<notin> set ''0123456789''"
  shows "c \<notin> set (format_06d i)"
proof -
  have "CHR ''0'' \<in> set ''0123456789''"
    by simp
  with digits_chars have "set (format_06d i) \<subseteq> insert (CHR ''-'') (set ''0123456789'')"
    by (rule format_06d_chars_in)
  with assms show ?thesis
    by blast
qed

lemma prefix_before_separator:
  assumes "prefix pat (a @ c # rest)" and "c \<notin> set pat"
  shows "prefix pat a"
proof -
  from assms(1) consider "prefix pat a" | us where "pat = a @ us" and "prefix us (c # rest)"
    by (auto simp: prefix_append)
  then show ?thesis
  proof cases
    case 1
    then show ?thesis .
  next
    case 2
    with assms(2) have "us = []"
      by (cases us) auto
    with 2 show ?thesis by simp
  qed
qed

lemma occurrences_skip:
  "pat \<noteq> [] \<Longrightarrow> hd pat \<noteq> c \<Longrightarrow> occurrences pat (c # s) = occurrences pat s"
  by (cases pat) auto

lemma occurrences_field:
  assumes "c \<notin> set pat"
  shows "occurrences pat (f @ c # rest) = occurrences pat f + occurrences pat (c # rest)"
proof (induction f)
  case Nil
  show ?case by simp
next
  case (Cons x f)
  have "prefix pat (x # f @ c # rest) \<longleftrightarrow> prefix pat (x # f)"
    using prefix_before_separator [of pat "x # f" c rest, OF _ assms]
    by (auto intro: prefix_order.trans)
  with Cons show ?case by simp
qed

lemma occurrences_separated:
  assumes "pat \<noteq> []" and "c \<notin> set pat"
  shows "occurrences pat (f @ c # rest) = occurrences pat f + occurrences pat rest"
proof -
  from assms have "hd pat \<noteq> c"
    by (cases pat) auto
  with assms(1) have "occurrences pat (c # rest) = occurrences pat rest"
    by (rule occurrences_skip)
  then show ?thesis
    by (simp only: occurrences_field [OF assms(2)])
qed

lemma occurrences_absent:
  "pat \<noteq> [] \<Longrightarrow> hd pat \<notin> set f \<Longrightarrow> occurrences pat f = 0"
  by (induction f) (auto simp: prefix_Cons)

lemma occurrences_sample_id:
  "occurrences ''EE'' (format_06d i) = 0" "occurrences ''#AFS1000'' (format_06d i) = 0"
proof -
  have "CHR ''E'' \<notin> set (format_06d i)"
    by (rule not_in_format_06d) simp_all
  then show "occurrences ''EE'' (format_06d i) = 0"
    by (intro occurrences_absent) simp_all
  have "CHR ''#'' \<notin> set (format_06d i)"
    by (rule not_in_format_06d) simp_all
  then show "occurrences ''#AFS1000'' (format_06d i) = 0"
    by (intro occurrences_absent) simp_all
qed

lemma panel_message_shape:
  "panel_message sid res ts code pat @ rest =
     ''#AFS1000'' @ CHR ''&'' # sid @ CHR ''&'' # res @ CHR ''&'' # ts @ CHR ''&'' #
       [] @ CHR ''&'' # code @ CHR ''&'' # pat @ CHR ''&'' # [] @ CHR ''&'' # ''M'' @ CHR ''&'' #
       CHR ''1'' # rest"
  by (simp add: panel_message_def)

lemma occurrences_panel_message:
  assumes "pat \<noteq> []" and "CHR ''&'' \<notin> set pat" and "hd pat \<noteq> CHR ''1''"
  shows "occurrences pat (panel_message sid res ts code patient @ rest) =
     occurrences pat ''#AFS1000'' + occurrences pat sid + occurrences pat res
       + occurrences pat ts + occurrences pat code + occurrences pat patient
       + occurrences pat ''M'' + occurrences pat rest"
  unfolding panel_message_shape
  by (simp only: occurrences_separated [OF assms(1,2)] occurrences_skip [OF assms(1,3)]
      occurrences.simps(1) add_0_right add.assoc)

lemma panel_loop_acc:
  "panel_loop b ts patient panel idx acc = acc @ panel_loop b ts patient panel idx []"
proof (induction panel arbitrary: idx acc)
  case Nil
  show ?case by simp
next
  case (Cons entry panel)
  obtain code res unit where entry: "entry = (code, res, unit)"
    by (cases entry)
  define m where "m = panel_message (format_06d (b + idx)) res ts code patient"
  have step: "panel_loop b ts patient (entry # panel) idx a
                = panel_loop b ts patient panel (idx + 1) (a @ m)" for a
    by (simp add: entry m_def Let_def)
  have "panel_loop b ts patient (entry # panel) idx acc
          = (acc @ m) @ panel_loop b ts patient panel (idx + 1) []"
    unfolding step by (rule Cons.IH)
  moreover have "panel_loop b ts patient (entry # panel) idx []
          = ([] @ m) @ panel_loop b ts patient panel (idx + 1) []"
    unfolding step by (rule Cons.IH)
  ultimately show ?case
    by (simp only: append_assoc append_Nil)
qed

lemma panel_loop_Cons:
  "panel_loop b ts patient ((code, res, unit) # panel) idx [] @ rest =
     panel_message (format_06d (b + idx)) res ts code patient
       @ (panel_loop b ts patient panel (idx + 1) [] @ rest)"
proof -
  have "panel_loop b ts patient ((code, res, unit) # panel) idx []
          = panel_loop b ts patient panel (idx + 1)
              (panel_message (format_06d (b + idx)) res ts code patient)"
    by (simp add: Let_def)
  also have "\<dots> = panel_message (format_06d (b + idx)) res ts code patient
                    @ panel_loop b ts patient panel (idx + 1) []"
    by (rule panel_loop_acc)
  finally show ?thesis
    by (simp only: append_assoc)
qed

lemma occurrences_EE_loop:
  assumes "list_all entry_marker_free panel" and "marker_free patient" and "marker_free ts"
  shows "occurrences ''EE'' (panel_loop b ts patient panel idx [] @ rest) = occurrences ''EE'' rest"
  using assms(1)
proof (induction panel arbitrary: idx)
  case Nil
  show ?case by simp
next
  case (Cons entry panel)
  obtain code res unit where entry: "entry = (code, res, unit)"
    by (cases entry)
  from Cons.prems entry have fields: "marker_free code" "marker_free res"
    and tail: "list_all entry_marker_free panel"
    by simp_all
  have "panel_loop b ts patient (entry # panel) idx [] @ rest =
      panel_message (format_06d (b + idx)) res ts code patient
        @ (panel_loop b ts patient panel (idx + 1) [] @ rest)"
    unfolding entry by (rule panel_loop_Cons)
  then show ?case
    using fields assms(2,3) Cons.IH [OF tail, of "idx + 1"]
    by (simp add: occurrences_panel_message occurrences_sample_id marker_free_def)
qed

lemma occurrences_start_loop:
  assumes "list_all entry_marker_free panel" and "marker_free patient" and "marker_free ts"
  shows "occurrences ''#AFS1000'' (panel_loop b ts patient panel idx [] @ rest)
           = length panel + occurrences ''#AFS1000'' rest"
  using assms(1)
proof (induction panel arbitrary: idx)
  case Nil
  show ?case by simp
next
  case (Cons entry panel)
  obtain code res unit where entry: "entry = (code, res, unit)"
    by (cases entry)
  from Cons.prems entry have fields: "marker_free code" "marker_free res"
    and tail: "list_all entry_marker_free panel"
    by simp_all
  have "panel_loop b ts patient (entry # panel) idx [] @ rest =
      panel_message (format_06d (b + idx)) res ts code patient
        @ (panel_loop b ts patient panel (idx + 1) [] @ rest)"
    unfolding entry by (rule panel_loop_Cons)
  then show ?case
    using fields assms(2,3) Cons.IH [OF tail, of "idx + 1"]
    by (simp add: occurrences_panel_message occurrences_sample_id marker_free_def)
qed

text \<open>
  Claim C2, as amended. For a panel of any number of samples whose parameter codes and
  result values, patient identifier and timestamp contain neither the byte sequence EE
  nor the start marker, the transmission contains the bytes EE exactly once, at its very
  end, and the start marker exactly once per sample.
\<close>

theorem complete_transmission_markers:
  assumes "list_all entry_marker_free panel" and "marker_free patient" and "marker_free ts"
  shows "occurrences ''EE'' (complete_transmission panel b ts patient) = 1
         \<and> suffix ''EE'' (complete_transmission panel b ts patient)
         \<and> occurrences ''#AFS1000'' (complete_transmission panel b ts patient) = length panel"
proof (intro conjI)
  show "occurrences ''EE'' (complete_transmission panel b ts patient) = 1"
    by (simp add: complete_transmission_def occurrences_EE_loop [OF assms])
  show "occurrences ''#AFS1000'' (complete_transmission panel b ts patient) = length panel"
    by (simp add: complete_transmission_def occurrences_start_loop [OF assms])
  have "complete_transmission panel b ts patient
          = (panel_loop b ts patient panel 1 [] @ ''&'') @ ''EE''"
    by (simp add: complete_transmission_def)
  then show "suffix ''EE'' (complete_transmission panel b ts patient)"
    by (simp only: suffix_def) blast
qed

text \<open>The amended claim C2 at the panel and the default patient identifier of the script.\<close>

theorem complete_transmission_markers_witness:
  "list_all entry_marker_free CHEMISTRY_PANEL \<and> marker_free ''TESTDOG-001''
   \<and> marker_free ''20251125143000''
   \<and> occurrences ''EE'' (complete_transmission CHEMISTRY_PANEL 123456 ''20251125143000'' ''TESTDOG-001'') = 1
   \<and> occurrences ''#AFS1000''
        (complete_transmission CHEMISTRY_PANEL 123456 ''20251125143000'' ''TESTDOG-001'') = 6"
proof -
  have panel: "list_all entry_marker_free CHEMISTRY_PANEL"
    by (simp add: CHEMISTRY_PANEL_def marker_free_def)
  have patient: "marker_free ''TESTDOG-001''"
    by (simp add: marker_free_def)
  have ts: "marker_free ''20251125143000''"
    by (simp add: marker_free_def)
  have "length CHEMISTRY_PANEL = 6"
    by (simp add: CHEMISTRY_PANEL_def)
  with complete_transmission_markers [OF panel patient ts, of 123456]
  have "occurrences ''EE'' (complete_transmission CHEMISTRY_PANEL 123456 ''20251125143000'' ''TESTDOG-001'') = 1"
    and "occurrences ''#AFS1000''
        (complete_transmission CHEMISTRY_PANEL 123456 ''20251125143000'' ''TESTDOG-001'') = 6"
    by simp_all
  with panel patient ts show ?thesis
    by (intro conjI)
qed

lemma occurrences_patient_LEE: "occurrences ''EE'' ''LEE-001'' = 1"
  by simp

lemma occurrences_EE_loop_LEE:
  "occurrences ''EE'' (panel_loop 123456 ''20251125143000'' ''LEE-001'' [(''T4-1'', ''25.3'', ''nmol/L'')] 1 []
      @ ''&EE'') = 2"
  by (simp only: panel_loop_Cons panel_loop.simps append_Nil)
     (simp add: occurrences_panel_message occurrences_sample_id)

text \<open>
  Claim C2 as stated (for every panel, exactly one EE) fails for a panel of one sample
  and the patient identifier LEE-001: the transmission contains the bytes EE twice,
  once inside the identifier and once as the terminator.
\<close>

theorem complete_transmission_EE_counterexample:
  "occurrences ''EE''
     (complete_transmission [(''T4-1'', ''25.3'', ''nmol/L'')] 123456 ''20251125143000'' ''LEE-001'') = 2"
  unfolding complete_transmission_def by (rule occurrences_EE_loop_LEE)

section \<open>Proofs: the orchestrator\<close>

lemma truthy_cases:
  obtains (absent) "x = None" | (empty) "x = Some []" | (port) p where "x = Some p" and "p \<noteq> []"
  by (cases x) auto

lemma main_guard_passed:
  assumes "selected a \<noteq> []" and "scripts_present e"
  shows "main a e =
     (let tests = build_tests a in
         if arg_parallel a then
           (case start_all a e tests None [] of
              Inl x \<Rightarrow> Uncaught x
            | Inr processes \<Rightarrow>
                (let results = wait_all e processes [];
                     all_passed = all_values results
                 in if all_passed then Exit 0 (Some results) (map snd processes)
                    else Exit 1 (Some results) (map snd processes)))
         else
           (let (results, started) = run_sequential e tests [] [];
                all_passed = all_values results
            in if all_passed then Exit 0 (Some results) started
               else Exit 1 (Some results) started))"
proof -
  from assms(1) have "arg_exigo a \<or> truthy (arg_healvet a) \<or> truthy (arg_pointcare a)"
    by (auto simp: selected_def split: if_splits)
  with assms(2) show ?thesis
    by (simp add: main_def scripts_present_def)
qed

lemmas orch_defs =
  build_tests_def selected_def runner_cmd_def succeeded_def all_values_def
  parallel_cmd_def run_exigo_def run_healvet_def run_pointcare_def Let_def

lemma main_sequential:
  assumes "selected a \<noteq> []" and "scripts_present e" and "\<not> arg_parallel a"
  shows "main a e =
     Exit (if list_all (succeeded a e) (selected a) then 0 else 1)
          (Some (map (\<lambda>n. (n, succeeded a e n)) (selected a)))
          (map (runner_cmd a e) (selected a))"
  unfolding main_guard_passed [OF assms(1,2)]
  using assms(3)
  by (cases "arg_healvet a" rule: truthy_cases; cases "arg_pointcare a" rule: truthy_cases;
      cases "arg_exigo a") (simp_all add: orch_defs)

lemma main_parallel:
  assumes "selected a \<noteq> []" and "scripts_present e" and "arg_parallel a"
  shows "main a e =
     Exit (if list_all (succeeded a e) (selected a) then 0 else 1)
          (Some (map (\<lambda>n. (n, succeeded a e n)) (selected a)))
          (map (runner_cmd a e) (selected a))"
  unfolding main_guard_passed [OF assms(1,2)]
  using assms(3)
  by (cases "arg_healvet a" rule: truthy_cases; cases "arg_pointcare a" rule: truthy_cases;
      cases "arg_exigo a") (simp_all add: orch_defs)

lemma selected_distinct: "distinct (selected a)"
  by (simp add: selected_def)

text \<open>
  Claim C6, as amended. When at least one device is selected and the three runner
  scripts are present, \<^verbatim>\<open>main\<close> exits with status 0 if every selected runner
  succeeded and with status 1 otherwise; the summary has exactly one entry for each
  selected device, with the outcome of its runner; and in both modes the runner of
  every selected device is started, whatever the outcomes of the others.
\<close>

theorem main_exit_status_and_summary:
  assumes "selected a \<noteq> []" and "scripts_present e"
  shows "main a e =
     Exit (if \<forall>n \<in> set (selected a). succeeded a e n then 0 else 1)
          (Some (map (\<lambda>n. (n, succeeded a e n)) (selected a)))
          (map (runner_cmd a e) (selected a))
     \<and> distinct (selected a)"
proof (cases "arg_parallel a")
  case True
  from main_parallel [OF assms True] selected_distinct show ?thesis
    by (simp add: list_all_iff)
next
  case False
  from main_sequential [OF assms False] selected_distinct show ?thesis
    by (simp add: list_all_iff)
qed

text \<open>
  The amended claim C6 with three devices selected of which the second fails: the exit
  status is 1, the summary lists the three devices with their outcomes, and the third
  runner is started after the failure.
\<close>

theorem main_exit_status_and_summary_witness:
  "selected all_three \<noteq> [] \<and> scripts_present healvet_fails
   \<and> main all_three healvet_fails =
       Exit 1 (Some [(''exigo'', True), (''healvet'', False), (''pointcare'', True)])
         [[''python3'', ''./test_exigo_file_creator.py''],
          [''python3'', ''./test_healvet_full_panel.py'', ''/dev/ttys013''],
          [''python3'', ''./test_pointcare.py'', ''/dev/ttys014'', ''TESTDOG-001'', ''55'']]"
proof -
  have sel: "selected all_three \<noteq> []"
    by (simp add: selected_def all_three_def)
  have scr: "scripts_present healvet_fails"
    by (simp add: scripts_present_def healvet_fails_def)
  from main_exit_status_and_summary [OF sel scr]
  have "main all_three healvet_fails =
       Exit 1 (Some [(''exigo'', True), (''healvet'', False), (''pointcare'', True)])
         [[''python3'', ''./test_exigo_file_creator.py''],
          [''python3'', ''./test_healvet_full_panel.py'', ''/dev/ttys013''],
          [''python3'', ''./test_pointcare.py'', ''/dev/ttys014'', ''TESTDOG-001'', ''55'']]"
    by (simp add: selected_def succeeded_def runner_cmd_def all_three_def healvet_fails_def
        EXIGO_SCRIPT_def HEALVET_SCRIPT_def POINTCARE_SCRIPT_def)
  with sel scr show ?thesis
    by (intro conjI)
qed

text \<open>
  Claim C6 as stated (for every selection, exit status 0 if and only if every selected
  runner succeeded) fails for the empty selection: every selected runner succeeded,
  there being none, and \<^verbatim>\<open>main\<close> exits with status 1 before any summary.
\<close>

theorem main_empty_selection_counterexample:
  "list_all (succeeded nothing_selected healvet_fails) (selected nothing_selected)
   \<and> main nothing_selected healvet_fails = Exit 1 None []"
  by (simp add: selected_def main_def nothing_selected_def)

lemma selected_parallel [simp]: "selected (a\<lparr>arg_parallel := b\<rparr>) = selected a"
  by (simp add: selected_def)

lemma runner_cmd_parallel [simp]: "runner_cmd (a\<lparr>arg_parallel := b\<rparr>) e = runner_cmd a e"
  by (rule ext) (simp add: runner_cmd_def)

lemma succeeded_parallel [simp]: "succeeded (a\<lparr>arg_parallel := b\<rparr>) e = succeeded a e"
  by (rule ext) (simp add: succeeded_def)

lemma main_guarded:
  assumes "selected a = [] \<or> \<not> scripts_present e"
  shows "main a e = Exit 1 None []"
proof -
  have "selected a = [] \<longleftrightarrow> \<not> (arg_exigo a \<or> truthy (arg_healvet a) \<or> truthy (arg_pointcare a))"
    by (auto simp: selected_def split: if_splits)
  with assms show ?thesis
    by (auto simp: main_def scripts_present_def)
qed

text \<open>
  Claim C9. With the same selection and the same return code for each runner's
  command line, the parallel and the sequential mode end with the same exit status,
  the same summary entries and the same runners started; neither ends in an
  exception.
\<close>

theorem parallel_equals_sequential:
  "main (a\<lparr>arg_parallel := True\<rparr>) e = main (a\<lparr>arg_parallel := False\<rparr>) e
   \<and> (\<exists>status summary started. main (a\<lparr>arg_parallel := True\<rparr>) e = Exit status summary started)"
proof (cases "selected a = [] \<or> \<not> scripts_present e")
  case True
  then have "main (a\<lparr>arg_parallel := True\<rparr>) e = Exit 1 None []"
    and "main (a\<lparr>arg_parallel := False\<rparr>) e = Exit 1 None []"
    by (simp_all add: main_guarded)
  then show ?thesis by simp
next
  case False
  then have sel: "selected a \<noteq> []" and scr: "scripts_present e"
    by simp_all
  have "main (a\<lparr>arg_parallel := True\<rparr>) e =
     Exit (if list_all (succeeded a e) (selected a) then 0 else 1)
          (Some (map (\<lambda>n. (n, succeeded a e n)) (selected a)))
          (map (runner_cmd a e) (selected a))"
    using main_parallel [of "a\<lparr>arg_parallel := True\<rparr>" e] sel scr by simp
  moreover have "main (a\<lparr>arg_parallel := False\<rparr>) e =
     Exit (if list_all (succeeded a e) (selected a) then 0 else 1)
          (Some (map (\<lambda>n. (n, succeeded a e n)) (selected a)))
          (map (runner_cmd a e) (selected a))"
    using main_sequential [of "a\<lparr>arg_parallel := False\<rparr>" e] sel scr by simp
  ultimately show ?thesis by simp
qed

text \<open>Claim C9 with three devices selected of which the second fails.\<close>

theorem parallel_equals_sequential_witness:
  "main (all_three\<lparr>arg_parallel := True\<rparr>) healvet_fails
     = main (all_three\<lparr>arg_parallel := False\<rparr>) healvet_fails
   \<and> main (all_three\<lparr>arg_parallel := True\<rparr>) healvet_fails =
       Exit 1 (Some [(''exigo'', True), (''healvet'', False), (''pointcare'', True)])
         [[''python3'', ''./test_exigo_file_creator.py''],
          [''python3'', ''./test_healvet_full_panel.py'', ''/dev/ttys013''],
          [''python3'', ''./test_pointcare.py'', ''/dev/ttys014'', ''TESTDOG-001'', ''55'']]"
proof -
  from parallel_equals_sequential [of all_three healvet_fails]
  have same: "main (all_three\<lparr>arg_parallel := True\<rparr>) healvet_fails
     = main (all_three\<lparr>arg_parallel := False\<rparr>) healvet_fails"
    by (rule conjunct1)
  have "main (all_three\<lparr>arg_parallel := True\<rparr>) healvet_fails =
       Exit 1 (Some [(''exigo'', True), (''healvet'', False), (''pointcare'', True)])
         [[''python3'', ''./test_exigo_file_creator.py''],
          [''python3'', ''./test_healvet_full_panel.py'', ''/dev/ttys013''],
          [''python3'', ''./test_pointcare.py'', ''/dev/ttys014'', ''TESTDOG-001'', ''55'']]"
    by (simp add: main_def all_three_def healvet_fails_def orch_defs
        EXIGO_SCRIPT_def HEALVET_SCRIPT_def POINTCARE_SCRIPT_def)
  with same show ?thesis
    by (intro conjI)
qed

section \<open>Proofs: the file system\<close>

lemma map_of_dict_set: "map_of (dict_set al k v) = (map_of al)(k \<mapsto> v)"
  by (induction al) (auto simp: fun_eq_iff)

lemma in_listdir: "n \<in> set (listdir fs d) \<longleftrightarrow> map_of fs (d @ [n]) \<noteq> None"
proof -
  have "n \<in> set (listdir fs d) \<longleftrightarrow> (\<exists>p \<in> fst ` set fs. p \<noteq> [] \<and> butlast p = d \<and> last p = n)"
    by (auto simp: listdir_def)
  also have "\<dots> \<longleftrightarrow> d @ [n] \<in> fst ` set fs"
  proof
    assume "\<exists>p \<in> fst ` set fs. p \<noteq> [] \<and> butlast p = d \<and> last p = n"
    then obtain p where "p \<in> fst ` set fs" and "p \<noteq> []" and "butlast p = d" and "last p = n"
      by blast
    moreover from this have "p = d @ [n]"
      by (metis append_butlast_last_id)
    ultimately show "d @ [n] \<in> fst ` set fs"
      by simp
  next
    assume "d @ [n] \<in> fst ` set fs"
    then show "\<exists>p \<in> fst ` set fs. p \<noteq> [] \<and> butlast p = d \<and> last p = n"
      by (intro bexI [of _ "d @ [n]"]) simp_all
  qed
  also have "\<dots> \<longleftrightarrow> map_of fs (d @ [n]) \<noteq> None"
    by (simp add: map_of_eq_None_iff)
  finally show ?thesis .
qed

lemma grown_refl: "grown d fs fs"
  by (simp add: grown_def)

lemma grown_kept: "grown d fs fs' \<Longrightarrow> map_of fs p = Some n \<Longrightarrow> map_of fs' p = Some n"
  unfolding grown_def by blast

lemma grown_new:
  "grown d fs fs' \<Longrightarrow> map_of fs p = None \<Longrightarrow> map_of fs' p \<noteq> None
     \<Longrightarrow> map_of fs' p = Some Dir \<and> p \<noteq> [] \<and> prefix p d"
  unfolding grown_def by blast

lemma grownI:
  assumes "\<And>p n. map_of fs p = Some n \<Longrightarrow> map_of fs' p = Some n"
    and "\<And>p. map_of fs p = None \<Longrightarrow> map_of fs' p \<noteq> None
           \<Longrightarrow> map_of fs' p = Some Dir \<and> p \<noteq> [] \<and> prefix p d"
  shows "grown d fs fs'"
  unfolding grown_def using assms by blast

lemma grown_parent:
  assumes "grown (butlast d) fs fs'"
  shows "grown d fs fs'"
proof (rule grownI)
  fix p n
  assume "map_of fs p = Some n"
  with assms show "map_of fs' p = Some n"
    by (rule grown_kept)
next
  fix p
  assume "map_of fs p = None" and "map_of fs' p \<noteq> None"
  with assms have "map_of fs' p = Some Dir \<and> p \<noteq> [] \<and> prefix p (butlast d)"
    by (blast dest: grown_new)
  moreover have "prefix (butlast d) d"
    by (rule prefixeq_butlast)
  ultimately show "map_of fs' p = Some Dir \<and> p \<noteq> [] \<and> prefix p d"
    by (auto intro: prefix_order.trans)
qed

lemma grown_trans:
  assumes "grown d fs fs1" and "grown d fs1 fs2"
  shows "grown d fs fs2"
proof (rule grownI)
  fix p n
  assume "map_of fs p = Some n"
  with assms(1) have "map_of fs1 p = Some n"
    by (rule grown_kept)
  with assms(2) show "map_of fs2 p = Some n"
    by (rule grown_kept)
next
  fix p
  assume none: "map_of fs p = None" and some: "map_of fs2 p \<noteq> None"
  show "map_of fs2 p = Some Dir \<and> p \<noteq> [] \<and> prefix p d"
  proof (cases "map_of fs1 p")
    case None
    from assms(2) None some show ?thesis
      by (rule grown_new)
  next
    case (Some n)
    then have "map_of fs1 p \<noteq> None"
      by simp
    with assms(1) none have new: "map_of fs1 p = Some Dir \<and> p \<noteq> [] \<and> prefix p d"
      by (rule grown_new)
    moreover from assms(2) new have "map_of fs2 p = Some Dir"
      by (blast intro: grown_kept)
    ultimately show ?thesis
      by simp
  qed
qed

lemma mkdir_grown: "mkdir fs d = Inr fs' \<Longrightarrow> grown d fs fs' \<and> isdir fs' d"
  by (auto simp: mkdir_def grown_def isdir_def path_exists_def map_of_dict_set
      split: if_splits)

lemma mkdir_exists: "mkdir fs d = Inl FileExistsError \<Longrightarrow> path_exists fs d"
  by (auto simp: mkdir_def split: if_splits)

lemma isdir_exists: "isdir fs p \<Longrightarrow> path_exists fs p"
  by (auto simp: isdir_def path_exists_def)

lemma mkdir_exist_ok_result:
  assumes "mkdir_exist_ok fs d = (r, fs')"
  shows "grown d fs fs'" and "r = None \<Longrightarrow> isdir fs' d"
    and "r = Some FileExistsError \<Longrightarrow> path_exists fs d"
proof -
  show "grown d fs fs'"
    using assms by (auto simp: mkdir_exist_ok_def grown_refl split: sum.splits if_splits
        dest: mkdir_grown)
  show "r = None \<Longrightarrow> isdir fs' d"
    using assms by (auto simp: mkdir_exist_ok_def split: sum.splits if_splits
        dest: mkdir_grown)
  show "r = Some FileExistsError \<Longrightarrow> path_exists fs d"
    using assms by (auto simp: mkdir_exist_ok_def split: sum.splits if_splits
        dest: mkdir_exists)
qed

lemma grown_not_below:
  assumes "grown (butlast d) fs fs'" and "d \<noteq> []" and "\<not> path_exists fs d"
  shows "\<not> path_exists fs' d \<or> isdir fs' d"
proof (cases "map_of fs' d")
  case None
  then show ?thesis
    by (simp add: path_exists_def)
next
  case (Some n)
  from assms(2,3) have "map_of fs d = None"
    by (simp add: path_exists_def)
  with assms(1) Some have "map_of fs' d = Some Dir"
    by (blast dest: grown_new)
  with assms(2) show ?thesis
    by (simp add: isdir_def)
qed

lemma makedirs_result:
  "makedirs fs d = (r, fs') \<Longrightarrow>
     grown d fs fs' \<and> (r = None \<longrightarrow> isdir fs' d)
     \<and> (r = Some FileExistsError \<longrightarrow> path_exists fs d)"
proof (induction fs d arbitrary: r fs' rule: makedirs.induct)
  case (1 fs d)
  show ?case
  proof (cases "butlast d \<noteq> [] \<and> \<not> path_exists fs (butlast d)")
    case False
    with "1.prems" have ok: "mkdir_exist_ok fs d = (r, fs')"
      by (subst (asm) makedirs.simps) simp
    then show ?thesis
      by (blast dest: mkdir_exist_ok_result)
  next
    case True
    then have nonempty: "d \<noteq> []"
      by auto
    obtain r0 fs0 where rec: "makedirs fs (butlast d) = (r0, fs0)"
      by (cases "makedirs fs (butlast d)")
    from "1.IH" [OF True rec]
    have g0: "grown (butlast d) fs fs0"
      and ex0: "r0 = Some FileExistsError \<longrightarrow> path_exists fs (butlast d)"
      by simp_all
    from ex0 True have not_exists: "r0 \<noteq> Some FileExistsError"
      by blast
    from g0 have g0': "grown d fs fs0"
      by (rule grown_parent)
    show ?thesis
    proof (cases r0)
      case None
      with "1.prems" True rec have ok: "mkdir_exist_ok fs0 d = (r, fs')"
        by (subst (asm) makedirs.simps) simp
      from mkdir_exist_ok_result [OF ok]
      have g1: "grown d fs0 fs'" and d1: "r = None \<Longrightarrow> isdir fs' d"
        and ex1: "r = Some FileExistsError \<Longrightarrow> path_exists fs0 d"
        by simp_all
      have "path_exists fs d" if "r = Some FileExistsError"
      proof (rule ccontr)
        assume no: "\<not> path_exists fs d"
        with g0 nonempty have "\<not> path_exists fs0 d \<or> isdir fs0 d"
          by (intro grown_not_below) simp_all
        with ex1 [OF that] have "isdir fs0 d"
          by blast
        with ok that show False
          by (auto simp: mkdir_exist_ok_def split: sum.splits)
      qed
      with grown_trans [OF g0' g1] d1 show ?thesis
        by blast
    next
      case (Some e)
      with "1.prems" True rec not_exists have "r = r0" and "fs' = fs0"
        by (subst (asm) makedirs.simps, simp)+
      with g0' not_exists Some show ?thesis
        by simp
    qed
  qed
qed

lemma makedirs_grown: "makedirs fs d = (r, fs') \<Longrightarrow> grown d fs fs'"
  by (simp add: makedirs_result)

lemma makedirs_isdir: "makedirs fs d = (None, fs') \<Longrightarrow> isdir fs' d"
  using makedirs_result [of fs d None fs'] by simp

text \<open>
  The empty path: \<^verbatim>\<open>os.makedirs("")\<close> raises \<^verbatim>\<open>FileNotFoundError\<close> and makes
  nothing.
\<close>

lemma makedirs_empty: "makedirs fs [] = (Some FileNotFoundError, fs)"
  by (subst makedirs.simps) (simp add: mkdir_exist_ok_def mkdir_def isdir_def)

section \<open>Proofs: the versioned file emitter\<close>

lemma stem_xml: "b \<noteq> [] \<Longrightarrow> stem (d @ [b @ ''.xml'']) = b"
  by (simp add: stem_def rfind_def)

lemma target_not_source: "src \<noteq> d @ [target_name (stem src) v]"
proof
  assume "src = d @ [target_name (stem src) v]"
  then have "stem src = stem (d @ [target_name (stem src) v])"
    by (rule arg_cong)
  also have "target_name (stem src) v = (stem src @ ''_v'' @ str_int v) @ ''.xml''"
    by (simp add: target_name_def)
  also have "stem (d @ [(stem src @ ''_v'' @ str_int v) @ ''.xml'']) = stem src @ ''_v'' @ str_int v"
    by (rule stem_xml) simp
  finally show False
    by simp
qed

lemma copy2_file:
  assumes "map_of fs src = Some (File c)" and "src \<noteq> []" and "src \<noteq> dst"
    and "\<not> isdir fs dst" and "isdir fs (butlast dst)"
  shows "copy2 fs src dst = Inr (dict_set fs dst (File c))"
proof -
  from assms(5) have "butlast dst \<noteq> []"
    by (simp add: isdir_def)
  then have "dst \<noteq> []"
    by auto
  with assms show ?thesis
    by (simp add: copy2_def isdir_exists)
qed

text \<open>The version that a call uses, given the directory as \<^verbatim>\<open>makedirs\<close> left it.\<close>

lemma get_next_version_isdir:
  "isdir fs d \<Longrightarrow> get_next_version fs d b = Inr (scan_versions b (listdir fs d) 0 + 1)"
  by (simp add: get_next_version_def isdir_exists)

lemma create_versioned_file_success:
  assumes src: "map_of fs src = Some (File c)" "src \<noteq> []"
    and mk: "makedirs fs d = (None, fs1)"
    and ver: "ver = (case v of None \<Rightarrow> scan_versions (stem src) (listdir fs1 d) 0 + 1 | Some n \<Rightarrow> n)"
    and free: "\<not> isdir fs1 (d @ [target_name (stem src) ver])"
  shows "create_versioned_file fs src d v =
     (Inr (d @ [target_name (stem src) ver], ver),
      dict_set fs1 (d @ [target_name (stem src) ver]) (File c))"
proof -
  from src have exists: "pathlib_exists fs src"
    by (simp add: pathlib_exists_def path_exists_def)
  from mk have dir: "isdir fs1 d"
    by (rule makedirs_isdir)
  from mk have "grown d fs fs1"
    by (rule makedirs_grown)
  then have src1: "map_of fs1 src = Some (File c)"
    using src(1) by (rule grown_kept)
  have version: "(case v of None \<Rightarrow> get_next_version fs1 d (stem src) | Some n \<Rightarrow> Inr n) = Inr ver"
    using dir ver by (simp add: get_next_version_isdir split: option.splits)
  have "copy2 fs1 src (d @ [target_name (stem src) ver])
          = Inr (dict_set fs1 (d @ [target_name (stem src) ver]) (File c))"
    using src1 src(2) target_not_source free dir by (intro copy2_file) simp_all
  with exists mk version show ?thesis
    by (simp add: create_versioned_file_def Let_def)
qed

lemma makedirs_parent:
  assumes "makedirs fs d = (None, fs')"
  shows "butlast d = [] \<or> path_exists fs' (butlast d)"
proof (cases "butlast d \<noteq> [] \<and> \<not> path_exists fs (butlast d)")
  case False
  then have "butlast d = [] \<or> map_of fs (butlast d) \<noteq> None"
    by (auto simp: path_exists_def)
  moreover from assms have "grown d fs fs'"
    by (rule makedirs_grown)
  ultimately show ?thesis
    by (auto simp: path_exists_def dest: grown_kept)
next
  case True
  obtain r0 fs0 where rec: "makedirs fs (butlast d) = (r0, fs0)"
    by (cases "makedirs fs (butlast d)")
  from makedirs_result [OF rec] True have "r0 \<noteq> Some FileExistsError"
    by blast
  with assms True rec have r0: "r0 = None" and ok: "mkdir_exist_ok fs0 d = (None, fs')"
    by (subst (asm) makedirs.simps, simp split: if_splits)+
  from rec r0 have "isdir fs0 (butlast d)"
    by (simp add: makedirs_isdir)
  then have parent: "path_exists fs0 (butlast d)"
    by (rule isdir_exists)
  from ok have "grown d fs0 fs'"
    by (rule mkdir_exist_ok_result)
  with parent show ?thesis
    by (auto simp: path_exists_def dest: grown_kept)
qed

lemma makedirs_again:
  assumes "isdir fs d" and "butlast d = [] \<or> path_exists fs (butlast d)"
  shows "makedirs fs d = (None, fs)"
proof -
  from assms(1) have "d \<noteq> []"
    by (simp add: isdir_def)
  with assms show ?thesis
    by (subst makedirs.simps) (auto simp: mkdir_exist_ok_def mkdir_def isdir_exists)
qed

lemma grown_listdir:
  assumes "grown d fs fs'"
  shows "set (listdir fs' d) = set (listdir fs d)"
proof -
  have "map_of fs' (d @ [n]) \<noteq> None \<longleftrightarrow> map_of fs (d @ [n]) \<noteq> None" for n
  proof (cases "map_of fs (d @ [n])")
    case (Some node)
    with assms have "map_of fs' (d @ [n]) = Some node"
      by (rule grown_kept)
    with Some show ?thesis
      by simp
  next
    case None
    have "\<not> prefix (d @ [n]) d"
      by (auto dest: prefix_length_le)
    with assms None have "map_of fs' (d @ [n]) = None"
      by (blast dest: grown_new)
    with None show ?thesis
      by simp
  qed
  then show ?thesis
    by (auto simp: in_listdir)
qed

lemma ready_after_makedirs:
  assumes "map_of fs src = Some (File c)" and "src \<noteq> []" and "makedirs fs d = (None, fs1)"
  shows "ready fs1 src d c"
proof -
  from assms(3) have "grown d fs fs1"
    by (rule makedirs_grown)
  then have "map_of fs1 src = Some (File c)"
    using assms(1) by (rule grown_kept)
  with assms(2,3) show ?thesis
    by (simp add: ready_def makedirs_isdir makedirs_parent)
qed

lemma create_versioned_file_ready:
  assumes "ready fs src d c"
    and "ver = (case v of None \<Rightarrow> scan_versions (stem src) (listdir fs d) 0 + 1 | Some n \<Rightarrow> n)"
    and "\<not> isdir fs (d @ [target_name (stem src) ver])"
  shows "create_versioned_file fs src d v =
     (Inr (d @ [target_name (stem src) ver], ver),
      dict_set fs (d @ [target_name (stem src) ver]) (File c))"
    and "ready (dict_set fs (d @ [target_name (stem src) ver]) (File c)) src d c"
proof -
  from assms(1) have mk: "makedirs fs d = (None, fs)"
    by (simp add: ready_def makedirs_again)
  from assms(1) have src: "map_of fs src = Some (File c)" "src \<noteq> []"
    by (simp_all add: ready_def)
  from src mk assms(2,3)
  show "create_versioned_file fs src d v =
     (Inr (d @ [target_name (stem src) ver], ver),
      dict_set fs (d @ [target_name (stem src) ver]) (File c))"
    by (rule create_versioned_file_success)
  have "butlast d \<noteq> d @ [target_name (stem src) ver]"
    by (metis butlast_snoc length_butlast length_append_singleton diff_Suc_1 lessI less_irrefl_nat less_imp_diff_less)
  with assms(1) target_not_source [of src d ver]
  show "ready (dict_set fs (d @ [target_name (stem src) ver]) (File c)) src d c"
    by (auto simp: ready_def isdir_def path_exists_def map_of_dict_set)
qed

text \<open>The equations that evaluate the model on a concrete file system.\<close>

lemmas files_eval =
  makedirs.simps mkdir_exist_ok_def mkdir_def copy2_def path_exists_def pathlib_exists_def
  isdir_def listdir_def
  create_versioned_file_def creator_main_def get_next_version_def target_name_def
  chosen_target_def chosen_version_def file_version_def startswith_def endswith_def suffix_def
  py_int_def strip_def is_space_def is_digit_def digit_val_def stem_def rfind_def
  str_int_def digits.simps digit_char_def Let_def

lemma makedirs_split:
  assumes "fst (makedirs fs d) = None"
  shows "makedirs fs d = (None, snd (makedirs fs d))"
  using assms by (cases "makedirs fs d") simp

text \<open>
  Claim C8, as amended. When the source path does not exist the call raises
  \<^verbatim>\<open>FileNotFoundError\<close> and leaves the file system as it was (no directory made, no
  file written). When the source path exists, a \<^verbatim>\<open>FileNotFoundError\<close> of the call is
  the one that \<^verbatim>\<open>os.makedirs\<close> or \<^verbatim>\<open>shutil.copy2\<close> raised. A source that is a regular
  file is published whatever its content \<open>c\<close> is, when the target directory can be made
  and the target name is not a directory.
\<close>

theorem create_versioned_file_missing_source:
  "(\<not> pathlib_exists fs src \<longrightarrow>
      create_versioned_file fs src d v = (Inl FileNotFoundError, fs))
   \<and> (pathlib_exists fs src \<and> fst (create_versioned_file fs src d v) = Inl FileNotFoundError
       \<longrightarrow> fst (makedirs fs d) = Some FileNotFoundError
           \<or> copy2 (snd (makedirs fs d)) src (chosen_target fs src d v) = Inl FileNotFoundError)
   \<and> (map_of fs src = Some (File c) \<and> src \<noteq> [] \<and> fst (makedirs fs d) = None
        \<and> \<not> isdir (snd (makedirs fs d)) (chosen_target fs src d v)
       \<longrightarrow> fst (create_versioned_file fs src d v)
             = Inr (chosen_target fs src d v, chosen_version fs src d v)
           \<and> map_of (snd (create_versioned_file fs src d v)) (chosen_target fs src d v)
             = Some (File c))"
proof (intro conjI impI)
  assume "\<not> pathlib_exists fs src"
  then show "create_versioned_file fs src d v = (Inl FileNotFoundError, fs)"
    by (simp add: create_versioned_file_def)
next
  assume a: "pathlib_exists fs src
      \<and> fst (create_versioned_file fs src d v) = Inl FileNotFoundError"
  then have found: "pathlib_exists fs src"
    and raised: "fst (create_versioned_file fs src d v) = Inl FileNotFoundError"
    by simp_all
  obtain r fs1 where mk: "makedirs fs d = (r, fs1)"
    by (cases "makedirs fs d")
  show "fst (makedirs fs d) = Some FileNotFoundError
      \<or> copy2 (snd (makedirs fs d)) src (chosen_target fs src d v) = Inl FileNotFoundError"
  proof (cases r)
    case (Some e)
    with found raised mk show ?thesis
      by (simp add: create_versioned_file_def)
  next
    case None
    with mk have dir: "isdir fs1 d"
      by (simp add: makedirs_isdir)
    have version: "(case v of None \<Rightarrow> get_next_version fs1 d (stem src) | Some n \<Rightarrow> Inr n)
        = Inr (chosen_version fs src d v)"
      using dir mk by (simp add: chosen_version_def get_next_version_isdir split: option.splits)
    let ?tgt = "d @ [target_name (stem src) (chosen_version fs src d v)]"
    have unfolded: "create_versioned_file fs src d v =
        (case copy2 fs1 src ?tgt of
           Inl e \<Rightarrow> (Inl e, fs1)
         | Inr fs2 \<Rightarrow> (Inr (?tgt, chosen_version fs src d v), fs2))"
      using found mk None version
      by (simp add: create_versioned_file_def Let_def)
    from raised have "copy2 fs1 src ?tgt = Inl FileNotFoundError"
      unfolding unfolded by (cases "copy2 fs1 src ?tgt") simp_all
    with mk show ?thesis
      by (simp add: chosen_target_def)
  qed
next
  assume a: "map_of fs src = Some (File c) \<and> src \<noteq> [] \<and> fst (makedirs fs d) = None
        \<and> \<not> isdir (snd (makedirs fs d)) (chosen_target fs src d v)"
  then have "fst (makedirs fs d) = None"
    by (elim conjE)
  then have mk: "makedirs fs d = (None, snd (makedirs fs d))"
    by (rule makedirs_split)
  have ver: "chosen_version fs src d v =
      (case v of None \<Rightarrow> scan_versions (stem src) (listdir (snd (makedirs fs d)) d) 0 + 1
       | Some n \<Rightarrow> n)"
    by (simp add: chosen_version_def split: option.splits)
  from a have free: "\<not> isdir (snd (makedirs fs d))
      (d @ [target_name (stem src) (chosen_version fs src d v)])"
    by (simp add: chosen_target_def)
  from a have src: "map_of fs src = Some (File c)" "src \<noteq> []"
    by simp_all
  note published = create_versioned_file_success [OF src mk ver free]
  from published show "fst (create_versioned_file fs src d v)
             = Inr (chosen_target fs src d v, chosen_version fs src d v)"
    by (simp add: chosen_target_def)
  from published show "map_of (snd (create_versioned_file fs src d v)) (chosen_target fs src d v)
             = Some (File c)"
    by (simp add: chosen_target_def map_of_dict_set)
qed

text \<open>
  The amended claim C8 at a template that does not exist (the file system stays as it
  was), at the default template and the empty target path (the error is the one of
  \<^verbatim>\<open>os.makedirs\<close>), and at the default template published into a directory that is
  made on the way.
\<close>

theorem create_versioned_file_missing_source_witness:
  "\<not> pathlib_exists watch_fs [''templates'', ''missing.xml'']
   \<and> create_versioned_file watch_fs [''templates'', ''missing.xml''] [''new'', ''dir''] None
       = (Inl FileNotFoundError, watch_fs)
   \<and> pathlib_exists watch_fs [''templates'', ''exigo_test_proper.xml'']
   \<and> fst (create_versioned_file watch_fs [''templates'', ''exigo_test_proper.xml''] [] None)
       = Inl FileNotFoundError
   \<and> fst (makedirs watch_fs []) = Some FileNotFoundError
   \<and> fst (create_versioned_file watch_fs [''templates'', ''exigo_test_proper.xml'']
            [''new'', ''dir''] None)
       = Inr ([''new'', ''dir'', ''exigo_test_proper_v1.xml''], 1)"
proof -
  let ?src = "[''templates'', ''exigo_test_proper.xml'']"
  have missing: "\<not> pathlib_exists watch_fs [''templates'', ''missing.xml'']"
    by (simp add: pathlib_exists_def path_exists_def watch_fs_def)
  with create_versioned_file_missing_source
    [of watch_fs "[''templates'', ''missing.xml'']" "[''new'', ''dir'']" None "[]"]
  have raised:
    "create_versioned_file watch_fs [''templates'', ''missing.xml''] [''new'', ''dir''] None
       = (Inl FileNotFoundError, watch_fs)"
    by blast
  have found: "pathlib_exists watch_fs ?src"
    by (simp add: pathlib_exists_def path_exists_def watch_fs_def)
  have empty: "fst (create_versioned_file watch_fs ?src [] None) = Inl FileNotFoundError"
    by (simp add: create_versioned_file_def found makedirs_empty)
  have copied: "copy2 (snd (makedirs watch_fs [])) ?src (chosen_target watch_fs ?src [] None)
      \<noteq> Inl FileNotFoundError"
    by (simp add: makedirs_empty watch_fs_def files_eval)
  from create_versioned_file_missing_source [of watch_fs ?src "[]" None "[]"] found empty copied
  have library: "fst (makedirs watch_fs []) = Some FileNotFoundError"
    by blast
  have pre: "map_of watch_fs ?src = Some (File ''<exigo/>'')
      \<and> ?src \<noteq> []
      \<and> fst (makedirs watch_fs [''new'', ''dir'']) = None
      \<and> \<not> isdir (snd (makedirs watch_fs [''new'', ''dir'']))
            (chosen_target watch_fs ?src [''new'', ''dir''] None)"
    by (simp add: watch_fs_def files_eval)
  have chosen:
    "chosen_target watch_fs ?src [''new'', ''dir''] None
       = [''new'', ''dir'', ''exigo_test_proper_v1.xml'']"
    "chosen_version watch_fs ?src [''new'', ''dir''] None = 1"
    by (simp_all add: watch_fs_def files_eval)
  from create_versioned_file_missing_source
    [of watch_fs ?src "[''new'', ''dir'']" None "''<exigo/>''"]
    pre
  have "fst (create_versioned_file watch_fs ?src [''new'', ''dir''] None)
       = Inr ([''new'', ''dir'', ''exigo_test_proper_v1.xml''], 1)"
    unfolding chosen by blast
  with missing raised found empty library show ?thesis
    by (intro conjI)
qed

text \<open>
  Claim C8 as stated (the error is raised only if the template does not exist) fails
  for the empty target path: the default template is a regular file, and the call
  raises \<^verbatim>\<open>FileNotFoundError\<close>, the one of \<^verbatim>\<open>os.makedirs\<close>.
\<close>

theorem existing_template_file_not_found_counterexample:
  "map_of watch_fs [''templates'', ''exigo_test_proper.xml''] = Some (File ''<exigo/>'')
   \<and> pathlib_exists watch_fs [''templates'', ''exigo_test_proper.xml'']
   \<and> create_versioned_file watch_fs [''templates'', ''exigo_test_proper.xml''] [] None
       = (Inl FileNotFoundError, watch_fs)"
  by (simp add: create_versioned_file_def makedirs_empty pathlib_exists_def path_exists_def
      watch_fs_def)

lemma scan_versions_mono: "m \<le> scan_versions b xs m"
proof (induction xs arbitrary: m)
  case Nil
  show ?case by simp
next
  case (Cons y ys)
  show ?case
  proof (cases "file_version b y")
    case None
    with Cons.IH [of m] show ?thesis by simp
  next
    case (Some k)
    with Cons.IH [of "max m k"] show ?thesis by simp
  qed
qed

lemma scan_versions_bounds:
  "file_version b x = Some n \<Longrightarrow> x \<in> set xs \<Longrightarrow> n \<le> scan_versions b xs m"
proof (induction xs arbitrary: m)
  case Nil
  then show ?case by simp
next
  case (Cons y ys)
  show ?case
  proof (cases "x = y")
    case True
    with Cons.prems(1) scan_versions_mono [of "max m n" b ys] show ?thesis
      by simp
  next
    case False
    with Cons.prems have "x \<in> set ys"
      by simp
    with Cons.IH Cons.prems(1) show ?thesis
      by (cases "file_version b y") simp_all
  qed
qed

text \<open>
  With an explicit version \<open>n\<close> the call writes to the name of that version whatever
  the directory holds: a file that has this name already is overwritten with the
  content of the source, the call returns normally with the version \<open>n\<close>, and the
  directory holds the same names as before.
\<close>

lemma explicit_version_overwrites:
  assumes "map_of fs src = Some (File c)" and "src \<noteq> []" and "fst (makedirs fs d) = None"
    and old: "map_of fs (d @ [target_name (stem src) n]) = Some (File old)"
  shows "\<exists>fs'. create_versioned_file fs src d (Some n)
                   = (Inr (d @ [target_name (stem src) n], n), fs')
               \<and> map_of fs' (d @ [target_name (stem src) n]) = Some (File c)
               \<and> set (listdir fs' d) = set (listdir fs d)"
proof -
  let ?fs1 = "snd (makedirs fs d)"
  let ?tgt = "d @ [target_name (stem src) n]"
  from assms(3) have mk: "makedirs fs d = (None, ?fs1)"
    by (rule makedirs_split)
  then have grown: "grown d fs ?fs1"
    by (rule makedirs_grown)
  from grown old have old1: "map_of ?fs1 ?tgt = Some (File old)"
    by (rule grown_kept)
  then have free: "\<not> isdir ?fs1 ?tgt"
    by (simp add: isdir_def)
  have ver: "n = (case Some n of None \<Rightarrow> scan_versions (stem src) (listdir ?fs1 d) 0 + 1
                  | Some k \<Rightarrow> k)"
    by simp
  from assms(1,2) mk ver free
  have call: "create_versioned_file fs src d (Some n)
      = (Inr (?tgt, n), dict_set ?fs1 ?tgt (File c))"
    by (rule create_versioned_file_success)
  have "map_of (dict_set ?fs1 ?tgt (File c)) (d @ [k]) \<noteq> None
          \<longleftrightarrow> map_of ?fs1 (d @ [k]) \<noteq> None" for k
    using old1 by (auto simp: map_of_dict_set)
  then have "set (listdir (dict_set ?fs1 ?tgt (File c)) d) = set (listdir ?fs1 d)"
    by (auto simp: in_listdir)
  also from grown have "\<dots> = set (listdir fs d)"
    by (rule grown_listdir)
  finally have "set (listdir (dict_set ?fs1 ?tgt (File c)) d) = set (listdir fs d)" .
  with call show ?thesis
    by (intro exI [of _ "dict_set ?fs1 ?tgt (File c)"]) (simp add: map_of_dict_set)
qed

text \<open>
  In the watched directory that holds version 7, the explicit version 7 replaces
  that file.
\<close>

lemma explicit_version_overwrites_example:
  "fst (create_versioned_file watch_fs [''templates'', ''exigo_test_proper.xml'']
          [''watch''] (Some 7))
     = Inr ([''watch'', ''exigo_test_proper_v7.xml''], 7)
   \<and> map_of watch_fs [''watch'', ''exigo_test_proper_v7.xml''] = Some (File ''<old/>'')
   \<and> map_of (snd (create_versioned_file watch_fs [''templates'', ''exigo_test_proper.xml'']
                    [''watch''] (Some 7)))
         [''watch'', ''exigo_test_proper_v7.xml'']
       = Some (File ''<exigo/>'')"
proof -
  let ?src = "[''templates'', ''exigo_test_proper.xml'']"
  have src: "map_of watch_fs ?src = Some (File ''<exigo/>'')" "?src \<noteq> []"
    by (simp_all add: watch_fs_def)
  have mk: "fst (makedirs watch_fs [''watch'']) = None"
    by (simp add: watch_fs_def files_eval)
  have base: "stem ?src = ''exigo_test_proper''"
    by (simp add: files_eval)
  have name: "target_name ''exigo_test_proper'' 7 = ''exigo_test_proper_v7.xml''"
    by (simp add: files_eval)
  have old: "map_of watch_fs ([''watch''] @ [''exigo_test_proper_v7.xml''])
      = Some (File ''<old/>'')"
    by (simp add: watch_fs_def)
  from explicit_version_overwrites [OF src mk, of 7 "''<old/>''", unfolded base name, OF old]
  obtain fs' where
    "create_versioned_file watch_fs ?src [''watch''] (Some 7)
       = (Inr ([''watch'', ''exigo_test_proper_v7.xml''], 7), fs')"
    and "map_of fs' [''watch'', ''exigo_test_proper_v7.xml''] = Some (File ''<exigo/>'')"
    by auto
  with old show ?thesis
    by simp
qed

text \<open>
  The name that the scan settles on is not in the directory whenever the scan reads
  that name back as the version it chose.
\<close>

lemma scanned_version_is_new:
  assumes "fst (makedirs fs d) = None"
    and reads_back: "file_version (stem src) (target_name (stem src) (chosen_version fs src d None))
               = Some (chosen_version fs src d None)"
  shows "target_name (stem src) (chosen_version fs src d None) \<notin> set (listdir fs d)"
proof
  let ?fs1 = "snd (makedirs fs d)"
  let ?ver = "chosen_version fs src d None"
  from assms(1) have "makedirs fs d = (None, ?fs1)"
    by (rule makedirs_split)
  then have grown: "grown d fs ?fs1"
    by (rule makedirs_grown)
  assume "target_name (stem src) ?ver \<in> set (listdir fs d)"
  with grown have "target_name (stem src) ?ver \<in> set (listdir ?fs1 d)"
    by (simp add: grown_listdir)
  with reads_back have "?ver \<le> scan_versions (stem src) (listdir ?fs1 d) 0"
    by (rule scan_versions_bounds)
  then show False
    by (simp add: chosen_version_def)
qed

text \<open>
  Claim C10 at a template named \<^verbatim>\<open>x.xml\<close> and a watched directory in which an
  earlier run left \<^verbatim>\<open>x_v1.xml\<close>. The call with the explicit version 1 writes over
  that file, as the claim says. The call with no version, which is to settle on a
  version that is not in the directory, settles on version 1 as well: the scan does
  not read \<^verbatim>\<open>x_v1.xml\<close> as a version, the name it chooses is in the directory, and
  the call writes over the file and returns normally, exactly as the call with the
  explicit version does.
\<close>

theorem scan_path_overwrites_published_version:
  "''x_v1.xml'' \<in> set (listdir x_fs_old [''watch''])
   \<and> map_of x_fs_old [''watch'', ''x_v1.xml''] = Some (File ''<old/>'')
   \<and> file_version ''x'' ''x_v1.xml'' = None
   \<and> create_versioned_file x_fs_old [''templates'', ''x.xml''] [''watch''] None
       = (Inr ([''watch'', ''x_v1.xml''], 1), x_fs_v1)
   \<and> map_of x_fs_v1 [''watch'', ''x_v1.xml''] = Some (File ''<exigo/>'')
   \<and> create_versioned_file x_fs_old [''templates'', ''x.xml''] [''watch''] (Some 1)
       = create_versioned_file x_fs_old [''templates'', ''x.xml''] [''watch''] None"
proof (intro conjI)
  show "''x_v1.xml'' \<in> set (listdir x_fs_old [''watch''])"
    by (simp add: x_fs_old_def listdir_def)
  show "map_of x_fs_old [''watch'', ''x_v1.xml''] = Some (File ''<old/>'')"
    by (simp add: x_fs_old_def)
  show "file_version ''x'' ''x_v1.xml'' = None"
    by (simp add: files_eval)
  show scan: "create_versioned_file x_fs_old [''templates'', ''x.xml''] [''watch''] None
       = (Inr ([''watch'', ''x_v1.xml''], 1), x_fs_v1)"
    by (simp add: x_fs_old_def x_fs_v1_def files_eval)
  show "map_of x_fs_v1 [''watch'', ''x_v1.xml''] = Some (File ''<exigo/>'')"
    by (simp add: x_fs_v1_def)
  have "create_versioned_file x_fs_old [''templates'', ''x.xml''] [''watch''] (Some 1)
       = (Inr ([''watch'', ''x_v1.xml''], 1), x_fs_v1)"
    by (simp add: x_fs_old_def x_fs_v1_def files_eval)
  with scan show "create_versioned_file x_fs_old [''templates'', ''x.xml''] [''watch''] (Some 1)
       = create_versioned_file x_fs_old [''templates'', ''x.xml''] [''watch''] None"
    by simp
qed

lemma target_names:
  "target_name b 1 = b @ ''_v1.xml''" "target_name b 2 = b @ ''_v2.xml''"
  "target_name b 3 = b @ ''_v3.xml''"
  by (simp_all add: target_name_def str_int_def digits.simps digit_char_def)

text \<open>
  Claim C5. With a template that is a regular file of content \<open>c\<close> and a target
  directory that is empty, or absent and can be made, the run of \<^verbatim>\<open>main\<close> for three
  files and no starting version returns normally with the versions 1, 2 and 3; the
  directory then holds exactly the three names, which differ, and each of the three
  files has the content \<open>c\<close>.
\<close>

theorem three_files_round_trip:
  assumes "map_of fs src = Some (File c)" and "src \<noteq> []"
    and "fst (makedirs fs d) = None" and "listdir fs d = []"
  shows "\<exists>fs'. creator_main fs src d 3 None
                 = (Inr [(d @ [stem src @ ''_v1.xml''], 1), (d @ [stem src @ ''_v2.xml''], 2),
                         (d @ [stem src @ ''_v3.xml''], 3)], fs')
           \<and> set (listdir fs' d)
               = {stem src @ ''_v1.xml'', stem src @ ''_v2.xml'', stem src @ ''_v3.xml''}
           \<and> distinct [stem src @ ''_v1.xml'', stem src @ ''_v2.xml'', stem src @ ''_v3.xml'']
           \<and> map_of fs' (d @ [stem src @ ''_v1.xml'']) = Some (File c)
           \<and> map_of fs' (d @ [stem src @ ''_v2.xml'']) = Some (File c)
           \<and> map_of fs' (d @ [stem src @ ''_v3.xml'']) = Some (File c)"
proof -
  let ?b = "stem src"
  let ?fs1 = "snd (makedirs fs d)"
  let ?t1 = "d @ [?b @ ''_v1.xml'']" and ?t2 = "d @ [?b @ ''_v2.xml'']"
    and ?t3 = "d @ [?b @ ''_v3.xml'']"
  let ?fs2 = "dict_set ?fs1 ?t1 (File c)"
  let ?fs3 = "dict_set ?fs2 ?t2 (File c)"
  let ?fs4 = "dict_set ?fs3 ?t3 (File c)"
  from assms(3) have mk: "makedirs fs d = (None, ?fs1)"
    by (rule makedirs_split)
  then have "grown d fs ?fs1"
    by (rule makedirs_grown)
  then have "set (listdir ?fs1 d) = set (listdir fs d)"
    by (rule grown_listdir)
  with assms(4) have empty: "listdir ?fs1 d = []"
    by simp
  then have none1: "map_of ?fs1 (d @ [k]) = None" for k
    using in_listdir [of k ?fs1 d] by simp
  from assms(1,2) mk have ready1: "ready ?fs1 src d c"
    by (rule ready_after_makedirs)
  have ver1: "1 = (case None of None \<Rightarrow> scan_versions ?b (listdir ?fs1 d) 0 + 1 | Some n \<Rightarrow> n)"
    by (simp add: empty)
  have free1: "\<not> isdir ?fs1 (d @ [target_name ?b 1])"
    by (simp add: isdir_def none1)
  from assms(1,2) mk ver1 free1
  have call1: "create_versioned_file fs src d None = (Inr (?t1, 1), ?fs2)"
    unfolding target_names [symmetric] by (rule create_versioned_file_success)
  from ready1 ver1 free1 have ready2: "ready ?fs2 src d c"
    unfolding target_names [symmetric] by (rule create_versioned_file_ready)
  have ver2: "2 = (case Some 2 of None \<Rightarrow> scan_versions ?b (listdir ?fs2 d) 0 + 1 | Some n \<Rightarrow> n)"
    by simp
  have free2: "\<not> isdir ?fs2 (d @ [target_name ?b 2])"
    by (simp add: isdir_def none1 map_of_dict_set target_names)
  from ready2 ver2 free2
  have call2: "create_versioned_file ?fs2 src d (Some 2) = (Inr (?t2, 2), ?fs3)"
    and ready3: "ready ?fs3 src d c"
    unfolding target_names [symmetric] by (rule create_versioned_file_ready)+
  have ver3: "3 = (case Some 3 of None \<Rightarrow> scan_versions ?b (listdir ?fs3 d) 0 + 1 | Some n \<Rightarrow> n)"
    by simp
  have free3: "\<not> isdir ?fs3 (d @ [target_name ?b 3])"
    by (simp add: isdir_def none1 map_of_dict_set target_names)
  from ready3 ver3 free3
  have call3: "create_versioned_file ?fs3 src d (Some 3) = (Inr (?t3, 3), ?fs4)"
    unfolding target_names [symmetric] by (rule create_versioned_file_ready)
  have run: "creator_main fs src d 3 None = (Inr [(?t1, 1), (?t2, 2), (?t3, 3)], ?fs4)"
    by (simp add: creator_main_def eval_nat_numeral call1 call2 call3)
  have "k \<in> set (listdir ?fs4 d) \<longleftrightarrow> k \<in> {?b @ ''_v1.xml'', ?b @ ''_v2.xml'', ?b @ ''_v3.xml''}"
    for k
    by (auto simp: in_listdir map_of_dict_set none1)
  then have listing: "set (listdir ?fs4 d) = {?b @ ''_v1.xml'', ?b @ ''_v2.xml'', ?b @ ''_v3.xml''}"
    by blast
  have contents: "map_of ?fs4 ?t1 = Some (File c)" "map_of ?fs4 ?t2 = Some (File c)"
    "map_of ?fs4 ?t3 = Some (File c)"
    by (simp_all add: map_of_dict_set)
  have "distinct [?b @ ''_v1.xml'', ?b @ ''_v2.xml'', ?b @ ''_v3.xml'']"
    by simp
  with run listing contents show ?thesis
    by (intro exI [of _ ?fs4] conjI)
qed

text \<open>
  Claim C5 for the default template and a target directory that does not exist yet.
\<close>

theorem three_files_round_trip_witness:
  "map_of watch_fs [''templates'', ''exigo_test_proper.xml''] = Some (File ''<exigo/>'')
   \<and> fst (makedirs watch_fs [''new'', ''dir'']) = None
   \<and> listdir watch_fs [''new'', ''dir''] = []
   \<and> fst (creator_main watch_fs [''templates'', ''exigo_test_proper.xml''] [''new'', ''dir''] 3 None)
       = Inr [([''new'', ''dir'', ''exigo_test_proper_v1.xml''], 1),
              ([''new'', ''dir'', ''exigo_test_proper_v2.xml''], 2),
              ([''new'', ''dir'', ''exigo_test_proper_v3.xml''], 3)]
   \<and> map_of (snd (creator_main watch_fs [''templates'', ''exigo_test_proper.xml'']
                    [''new'', ''dir''] 3 None))
         [''new'', ''dir'', ''exigo_test_proper_v3.xml'']
       = Some (File ''<exigo/>'')"
proof -
  let ?src = "[''templates'', ''exigo_test_proper.xml'']"
  have src: "map_of watch_fs ?src = Some (File ''<exigo/>'')" "?src \<noteq> []"
    by (simp_all add: watch_fs_def)
  have mk: "fst (makedirs watch_fs [''new'', ''dir'']) = None"
    by (simp add: watch_fs_def files_eval)
  have empty: "listdir watch_fs [''new'', ''dir''] = []"
    by (simp add: watch_fs_def listdir_def)
  have base: "stem ?src = ''exigo_test_proper''"
    by (simp add: files_eval)
  from three_files_round_trip [OF src mk empty, unfolded base]
  obtain fs' where
    "creator_main watch_fs ?src [''new'', ''dir''] 3 None
       = (Inr [([''new'', ''dir'', ''exigo_test_proper_v1.xml''], 1),
               ([''new'', ''dir'', ''exigo_test_proper_v2.xml''], 2),
               ([''new'', ''dir'', ''exigo_test_proper_v3.xml''], 3)], fs')"
    and "map_of fs' [''new'', ''dir'', ''exigo_test_proper_v3.xml''] = Some (File ''<exigo/>'')"
    by auto
  then have "fst (creator_main watch_fs ?src [''new'', ''dir''] 3 None)
       = Inr [([''new'', ''dir'', ''exigo_test_proper_v1.xml''], 1),
              ([''new'', ''dir'', ''exigo_test_proper_v2.xml''], 2),
              ([''new'', ''dir'', ''exigo_test_proper_v3.xml''], 3)]"
    and "map_of (snd (creator_main watch_fs ?src [''new'', ''dir''] 3 None))
         [''new'', ''dir'', ''exigo_test_proper_v3.xml''] = Some (File ''<exigo/>'')"
    by simp_all
  with src(1) mk empty show ?thesis
    by (intro conjI)
qed

text \<open>
  Within one run of \<^verbatim>\<open>main\<close> the versions are consecutive: the first is the one
  the scan settles on (or the given start version), every later one is the version
  before plus one.
\<close>

lemma create_versioned_file_version:
  assumes "create_versioned_file fs src d v = (Inr (p, ver), fs')"
  shows "ver = chosen_version fs src d v"
proof -
  obtain r fs1 where mk: "makedirs fs d = (r, fs1)"
    by (cases "makedirs fs d")
  with assms have r: "r = None"
    by (cases r) (auto simp: create_versioned_file_def split: if_splits)
  with mk have dir: "isdir fs1 d"
    by (simp add: makedirs_isdir)
  from assms mk r dir show ?thesis
    by (auto simp: create_versioned_file_def chosen_version_def get_next_version_isdir Let_def
        split: if_splits option.splits sum.splits)
qed

lemma creator_loop_consecutive:
  "creator_loop fs src d k (Some n) acc = (Inr created, fs')
     \<Longrightarrow> \<exists>new. created = acc @ new \<and> map snd new = map (\<lambda>i. n + int i) [0..<k]"
proof (induction k arbitrary: fs n acc)
  case 0
  then show ?case by simp
next
  case (Suc k)
  from Suc.prems obtain p ver fs1 where
    call: "create_versioned_file fs src d (Some n) = (Inr (p, ver), fs1)"
    and rest: "creator_loop fs1 src d k (Some (n + 1)) (acc @ [(p, ver)]) = (Inr created, fs')"
    by (auto split: prod.splits sum.splits)
  from create_versioned_file_version [OF call] have ver: "ver = n"
    by (simp add: chosen_version_def)
  from Suc.IH [OF rest] obtain new where
    new: "created = (acc @ [(p, ver)]) @ new" "map snd new = map (\<lambda>i. n + 1 + int i) [0..<k]"
    by blast
  have "map (\<lambda>i. n + int i) [0..<Suc k] = n # map (\<lambda>i. n + 1 + int i) [0..<k]"
    by (simp add: upt_conv_Cons map_Suc_upt [symmetric] del: upt_Suc)
  with new ver show ?case
    by (intro exI [of _ "(p, ver) # new"]) simp
qed

lemma creator_main_consecutive:
  assumes "creator_main fs src d (Suc k) start = (Inr created, fs')"
  shows "map snd created = map (\<lambda>i. chosen_version fs src d start + int i) [0..<Suc k]"
proof -
  let ?v = "chosen_version fs src d start"
  from assms obtain p ver fs1 where
    call: "create_versioned_file fs src d start = (Inr (p, ver), fs1)"
    and loop: "creator_loop fs1 src d k
                 (case start of None \<Rightarrow> Some (ver + 1) | Some c \<Rightarrow> Some (c + 1)) [(p, ver)]
               = (Inr created, fs')"
    by (auto simp: creator_main_def split: prod.splits sum.splits)
  from call have ver: "ver = ?v"
    by (rule create_versioned_file_version)
  then have "(case start of None \<Rightarrow> Some (ver + 1) | Some c \<Rightarrow> Some (c + 1)) = Some (ver + 1)"
    by (simp add: chosen_version_def split: option.splits)
  with loop have rest: "creator_loop fs1 src d k (Some (ver + 1)) [(p, ver)] = (Inr created, fs')"
    by simp
  from creator_loop_consecutive [OF rest] obtain new where
    new: "created = [(p, ver)] @ new" "map snd new = map (\<lambda>i. ver + 1 + int i) [0..<k]"
    by blast
  have "map (\<lambda>i. ?v + int i) [0..<Suc k] = ?v # map (\<lambda>i. ?v + 1 + int i) [0..<k]"
    by (simp add: upt_conv_Cons map_Suc_upt [symmetric] del: upt_Suc)
  with new ver show ?thesis
    by simp
qed

text \<open>
  Claim C4 at a template named \<^verbatim>\<open>x.xml\<close>. A first run publishes version 1 into the
  empty directory. The directory then holds one name of the form
  \<^verbatim>\<open>x_v<digits>.xml\<close>, with the version 1, so that a run for two files should publish
  the versions 2 and 3. The scan does not read the name \<^verbatim>\<open>x_v1.xml\<close> as a version
  (removing every \<^verbatim>\<open>x\<close> from it leaves \<^verbatim>\<open>_v1.ml\<close>), and the run publishes the
  versions 1 and 2, writing over the file of the first run.
\<close>

theorem rescan_misses_published_version:
  "creator_main x_fs [''templates'', ''x.xml''] [''watch''] 1 None
     = (Inr [([''watch'', ''x_v1.xml''], 1)], x_fs_v1)
   \<and> spec_highest ''x'' (listdir x_fs_v1 [''watch'']) = 1
   \<and> file_version ''x'' ''x_v1.xml'' = None
   \<and> get_next_version x_fs_v1 [''watch''] ''x'' = Inr 1
   \<and> fst (creator_main x_fs_v1 [''templates'', ''x.xml''] [''watch''] 2 None)
       = Inr [([''watch'', ''x_v1.xml''], 1), ([''watch'', ''x_v2.xml''], 2)]"
proof (intro conjI)
  show "creator_main x_fs [''templates'', ''x.xml''] [''watch''] 1 None
     = (Inr [([''watch'', ''x_v1.xml''], 1)], x_fs_v1)"
    by (simp add: x_fs_def x_fs_v1_def files_eval)
  show "spec_highest ''x'' (listdir x_fs_v1 [''watch'']) = 1"
    by (simp add: x_fs_v1_def listdir_def spec_highest_def spec_file_version_def
        List.map_filter_def suffix_def is_digit_def digit_val_def)
  show "file_version ''x'' ''x_v1.xml'' = None"
    by (simp add: files_eval)
  show "get_next_version x_fs_v1 [''watch''] ''x'' = Inr 1"
    by (simp add: x_fs_v1_def files_eval)
  show "fst (creator_main x_fs_v1 [''templates'', ''x.xml''] [''watch''] 2 None)
       = Inr [([''watch'', ''x_v1.xml''], 1), ([''watch'', ''x_v2.xml''], 2)]"
    by (simp add: x_fs_v1_def files_eval numeral_2_eq_2)
qed

section \<open>Proofs: the bridge teardown\<close>

lemma stop_process_returns:
  "fst (try_except (then_do (terminate f os) (wait f)) (\<lambda>os'. try_except (kill f os') pass)) = None"
  by (simp add: try_except_def then_do_def terminate_def wait_def kill_def pass_def)

lemma stop_process_links:
  "links (snd (try_except (then_do (terminate f os) (wait f))
                 (\<lambda>os'. try_except (kill f os') pass))) = links os"
  by (simp add: try_except_def then_do_def terminate_def wait_def kill_def pass_def)


lemma cleanup_one:
  "(if os_path_exists os port then try_except (os_unlink f port os) pass else pass os)
     = (None, if os_path_exists os port \<and> \<not> unlink_raises f port
              then os\<lparr>links := (links os)(port := Absent)\<rparr> else os)"
  by (simp add: pass_def try_except_def os_unlink_def os_path_exists_def)




lemma cleanup_symlinks_skips:
  "links os p = Broken \<Longrightarrow> links (snd (cleanup_symlinks f ports os)) p = Broken"
proof (induction ports arbitrary: os)
  case Nil
  then show ?case by (simp add: pass_def)
next
  case (Cons port ports)
  let ?os1 = "if os_path_exists os port \<and> \<not> unlink_raises f port
              then os\<lparr>links := (links os)(port := Absent)\<rparr> else os"
  have step: "cleanup_symlinks f (port # ports) os = cleanup_symlinks f ports ?os1"
    by (simp add: cleanup_one then_do_def)
  from Cons.prems have "links ?os1 p = Broken"
    by (auto simp: os_path_exists_def)
  then show ?case
    unfolding step by (rule Cons.IH)
qed

lemma unix_close_unfold:
  "unix_close f b os =
     cleanup_symlinks f [app_port b, test_port b]
       (if socat_process b \<noteq> None
        then snd (try_except (then_do (terminate f os) (wait f))
                    (\<lambda>os'. try_except (kill f os') pass))
        else os)"
proof (cases "socat_process b \<noteq> None")
  case True
  with stop_process_returns [of f os] show ?thesis
    by (cases "try_except (then_do (terminate f os) (wait f)) (\<lambda>os'. try_except (kill f os') pass)")
       (simp add: unix_close_def then_do_def)
next
  case False
  then show ?thesis
    by (simp add: unix_close_def then_do_def pass_def)
qed


lemma stopped_links:
  "links (if socat_process b \<noteq> None
          then snd (try_except (then_do (terminate f os) (wait f))
                      (\<lambda>os'. try_except (kill f os') pass))
          else os) = links os"
  by (simp add: stop_process_links)



text \<open>
  A link whose target is gone is not unlinked: the test of line 99 is false for it.
\<close>

lemma unix_close_skips_dangling_link:
  "links os p = Broken \<Longrightarrow> links (snd (unix_close f b os)) p = Broken"
  unfolding unix_close_unfold by (simp only: cleanup_symlinks_skips stopped_links)








end
